theory Spec2Isabelle
  imports Complex_Main "HOL-Library.Sublist"
begin

section \<open>Data model (models.py)\<close>

text \<open>
  Python \<open>str\<close> is modelled as \<open>string\<close>: a \<open>char\<close> is a code point below 256, so the
  texts are those of ASCII and Latin-1. On them the character classes \<open>\\d\<close> and
  \<open>\\w\<close> of the regular expression and \<open>str.lower\<close> are Python's Unicode ones.

  \<open>Order.status\<close> has the type \<open>Literal["processing", "shipped", "canceled"]\<close>;
  pydantic validates it whenever an \<open>Order\<close> is constructed. The three admitted values
  are the datatype \<open>Status\<close>; \<open>parse_status\<close> is that validation of a string and
  \<open>status_str\<close> the string the value is. The field \<open>order\<close> of \<open>FindOrderResult\<close> is
  \<open>found_order\<close> here, \<open>order\<close> being the field of \<open>CancelOrderResult\<close>.
\<close>

datatype Status = Processing | Shipped | Canceled

fun status_str :: "Status \<Rightarrow> string" where
  "status_str Processing = ''processing''"
| "status_str Shipped = ''shipped''"
| "status_str Canceled = ''canceled''"

definition parse_status :: "string \<Rightarrow> Status option" where
  "parse_status s =
     (if s = ''processing'' then Some Processing
      else if s = ''shipped'' then Some Shipped
      else if s = ''canceled'' then Some Canceled
      else None)"

record Order =
  order_id :: string
  status :: Status
  item :: string

datatype Role = User | Assistant | Tool

record Message =
  role :: Role
  content :: string
  tool_name :: "string option"

record FindOrderResult =
  found :: bool
  found_order :: "Order option"

record CancelOrderResult =
  ok :: bool
  reason :: "string option"
  order :: "Order option"

text \<open>
  The exceptions the modelled code can raise. \<open>ValueError\<close> carries the name of the tool
  whose input was rejected (the spec's \<open>InvalidToolInput\<close>).
\<close>

datatype py_error =
    ValidationError
  | ValueError string
  | TypeError
  | AttributeError
  | FileNotFoundError
  | EngineError

section \<open>Order store (orders.py)\<close>

text \<open>
  The module globals \<open>ORDERS: Dict[str, Order]\<close> and \<open>OVERRIDES: Dict[str, str]\<close>.
\<close>

record store =
  ORDERS :: "string \<rightharpoonup> Order"
  OVERRIDES :: "string \<rightharpoonup> string"

text \<open>
  A row of \<open>csv.DictReader\<close>: a dictionary from column names to field texts;
  \<open>row.get\<close> gives \<open>None\<close> for a column the row does not have.
  \<open>not x\<close> holds of \<open>None\<close> and of the empty string.
\<close>

type_synonym row = "string \<rightharpoonup> string"

definition falsy :: "string option \<Rightarrow> bool" where
  "falsy x = (case x of None \<Rightarrow> True | Some s \<Rightarrow> s = [])"

text \<open>
  The loop of \<open>_load_orders\<close> over the rows, on the dictionary being filled. The
  \<open>Order\<close> is constructed, and its status validated, before the test
  \<open>oid not in ORDERS\<close>.
\<close>

fun load_rows :: "(string \<rightharpoonup> Order) \<Rightarrow> row list \<Rightarrow> py_error + (string \<rightharpoonup> Order)" where
  "load_rows m [] = Inr m"
| "load_rows m (r # rs) =
     (if falsy (r ''order_id'') \<or> falsy (r ''status'') \<or> falsy (r ''item'')
      then load_rows m rs
      else (case parse_status (the (r ''status'')) of
              None \<Rightarrow> Inl ValidationError
            | Some st \<Rightarrow>
                let oid = the (r ''order_id'');
                    new_order = \<lparr>order_id = oid, status = st, item = the (r ''item'')\<rparr>
                in if m oid = None then load_rows (m(oid \<mapsto> new_order)) rs
                   else load_rows m rs))"

text \<open>
  \<open>_load_orders\<close>: the file is \<open>None\<close> when \<open>CSV_PATH\<close> does not exist. \<open>ORDERS\<close> is
  cleared first; \<open>OVERRIDES\<close> is not touched.
\<close>

definition load_orders :: "row list option \<Rightarrow> py_error + (string \<rightharpoonup> Order)" where
  "load_orders csvfile =
     (case csvfile of
        None \<Rightarrow> Inl FileNotFoundError
      | Some rows \<Rightarrow> load_rows Map.empty rows)"

text \<open>
  \<open>get_order\<close> reads both dictionaries and writes none. The \<open>Order\<close> built from an
  override is validated, so an override that is not a status raises.
\<close>

definition get_order :: "store \<Rightarrow> string \<Rightarrow> py_error + Order option" where
  "get_order s oid =
     (case ORDERS s oid of
        None \<Rightarrow> Inr None
      | Some base \<Rightarrow>
          (case OVERRIDES s oid of
             None \<Rightarrow> Inr (Some base)
           | Some override \<Rightarrow>
               (case parse_status override of
                  None \<Rightarrow> Inl ValidationError
                | Some st \<Rightarrow> Inr (Some \<lparr>order_id = oid, status = st, item = item base\<rparr>))))"

text \<open>\<open>cancel_order\<close> returns its result together with the store after the call.\<close>

definition cancel_order :: "store \<Rightarrow> string \<Rightarrow> (py_error + CancelOrderResult) \<times> store" where
  "cancel_order s oid =
     (case get_order s oid of
        Inl e \<Rightarrow> (Inl e, s)
      | Inr None \<Rightarrow> (Inr \<lparr>ok = False, reason = Some ''not_found'', order = None\<rparr>, s)
      | Inr (Some ord) \<Rightarrow>
          if status ord \<in> {Shipped, Canceled}
          then (Inr \<lparr>ok = False, reason = Some ''immutable_status'', order = Some ord\<rparr>, s)
          else (Inr \<lparr>ok = True, reason = None,
                     order = Some \<lparr>order_id = oid, status = Canceled, item = item ord\<rparr>\<rparr>,
                s\<lparr>OVERRIDES := (OVERRIDES s)(oid \<mapsto> ''canceled'')\<rparr>))"

section \<open>Tool layer (llm.py)\<close>

text \<open>
  The values \<open>json.loads\<close> produces. An object is the association list of its
  members; as a Python dictionary it is read through \<open>map_of\<close>.
\<close>

datatype json =
    JNull
  | JBool bool
  | JInt int
  | JFloat real
  | JStr string
  | JArr "json list"
  | JObj "(string \<times> json) list"

text \<open>
  \<open>FindOrderInput(**args)\<close> and \<open>CancelOrderInput(**args)\<close>: both models have the one
  required field \<open>order_id: str\<close> with no further constraint, and ignore other keys.
  The result is the validated \<open>order_id\<close>, or \<open>None\<close> where pydantic raises
  \<open>ValidationError\<close>: the key is missing or its value is not a string.
\<close>

definition FindOrderInput :: "(string \<rightharpoonup> json) \<Rightarrow> string option" where
  "FindOrderInput args = (case args ''order_id'' of Some (JStr v) \<Rightarrow> Some v | _ \<Rightarrow> None)"

definition CancelOrderInput :: "(string \<rightharpoonup> json) \<Rightarrow> string option" where
  "CancelOrderInput args = (case args ''order_id'' of Some (JStr v) \<Rightarrow> Some v | _ \<Rightarrow> None)"

definition find_order_tool :: "store \<Rightarrow> (string \<rightharpoonup> json) \<Rightarrow> py_error + FindOrderResult" where
  "find_order_tool s args =
     (case FindOrderInput args of
        None \<Rightarrow> Inl (ValueError ''Invalid input for find_order'')
      | Some oid \<Rightarrow>
          (case get_order s oid of
             Inl e \<Rightarrow> Inl e
           | Inr (Some ord) \<Rightarrow> Inr \<lparr>found = True, found_order = Some ord\<rparr>
           | Inr None \<Rightarrow> Inr \<lparr>found = False, found_order = None\<rparr>))"

definition cancel_order_tool ::
  "store \<Rightarrow> (string \<rightharpoonup> json) \<Rightarrow> (py_error + CancelOrderResult) \<times> store" where
  "cancel_order_tool s args =
     (case CancelOrderInput args of
        None \<Rightarrow> (Inl (ValueError ''Invalid input for cancel_order''), s)
      | Some oid \<Rightarrow> cancel_order s oid)"

text \<open>The dictionary \<open>result.model_dump()\<close> of either result type.\<close>

datatype tool_result = FindResult FindOrderResult | CancelResult CancelOrderResult

section \<open>Fallback decision procedure (llm.py)\<close>

subsection \<open>Text operations\<close>

text \<open>
  \<open>\\d\<close> on a \<open>str\<close> is the Unicode decimal digits: below 256 these are \<open>0\<close> to \<open>9\<close>.
\<close>

definition is_digit :: "char \<Rightarrow> bool" where
  "is_digit c = (c \<in> set ''0123456789'')"

text \<open>
  \<open>\\w\<close> on a \<open>str\<close> is the Unicode alphanumeric characters and the underscore. Below
  256 these are the ASCII letters, digits and underscore and, in Latin-1, the ordinal
  indicators, the micro sign, the superscript digits, the vulgar fractions and the
  letters from \<open>0xC0\<close> on, the multiplication and division signs apart.
\<close>

definition latin1_word :: "char list" where
  "latin1_word =
     [CHR 0xAA, CHR 0xB2, CHR 0xB3, CHR 0xB5, CHR 0xB9, CHR 0xBA, CHR 0xBC, CHR 0xBD,
      CHR 0xBE, CHR 0xC0, CHR 0xC1, CHR 0xC2, CHR 0xC3, CHR 0xC4, CHR 0xC5, CHR 0xC6,
      CHR 0xC7, CHR 0xC8, CHR 0xC9, CHR 0xCA, CHR 0xCB, CHR 0xCC, CHR 0xCD, CHR 0xCE,
      CHR 0xCF, CHR 0xD0, CHR 0xD1, CHR 0xD2, CHR 0xD3, CHR 0xD4, CHR 0xD5, CHR 0xD6,
      CHR 0xD8, CHR 0xD9, CHR 0xDA, CHR 0xDB, CHR 0xDC, CHR 0xDD, CHR 0xDE, CHR 0xDF,
      CHR 0xE0, CHR 0xE1, CHR 0xE2, CHR 0xE3, CHR 0xE4, CHR 0xE5, CHR 0xE6, CHR 0xE7,
      CHR 0xE8, CHR 0xE9, CHR 0xEA, CHR 0xEB, CHR 0xEC, CHR 0xED, CHR 0xEE, CHR 0xEF,
      CHR 0xF0, CHR 0xF1, CHR 0xF2, CHR 0xF3, CHR 0xF4, CHR 0xF5, CHR 0xF6, CHR 0xF8,
      CHR 0xF9, CHR 0xFA, CHR 0xFB, CHR 0xFC, CHR 0xFD, CHR 0xFE, CHR 0xFF]"

definition is_word :: "char \<Rightarrow> bool" where
  "is_word c =
     (c \<in> set ''abcdefghijklmnopqrstuvwxyzABCDEFGHIJKLMNOPQRSTUVWXYZ0123456789_''
      \<or> c \<in> set latin1_word)"

text \<open>
  \<open>str.lower\<close> below 256: the ASCII capitals and the Latin-1 capitals \<open>0xC0\<close> to \<open>0xDE\<close>
  (the multiplication sign apart) go to the character 32 places on; every other
  character stays.
\<close>

definition latin1_upper :: "char list" where
  "latin1_upper =
     [CHR 0xC0, CHR 0xC1, CHR 0xC2, CHR 0xC3, CHR 0xC4, CHR 0xC5, CHR 0xC6, CHR 0xC7,
      CHR 0xC8, CHR 0xC9, CHR 0xCA, CHR 0xCB, CHR 0xCC, CHR 0xCD, CHR 0xCE, CHR 0xCF,
      CHR 0xD0, CHR 0xD1, CHR 0xD2, CHR 0xD3, CHR 0xD4, CHR 0xD5, CHR 0xD6, CHR 0xD8,
      CHR 0xD9, CHR 0xDA, CHR 0xDB, CHR 0xDC, CHR 0xDD, CHR 0xDE]"

definition latin1_lower :: "char list" where
  "latin1_lower =
     [CHR 0xE0, CHR 0xE1, CHR 0xE2, CHR 0xE3, CHR 0xE4, CHR 0xE5, CHR 0xE6, CHR 0xE7,
      CHR 0xE8, CHR 0xE9, CHR 0xEA, CHR 0xEB, CHR 0xEC, CHR 0xED, CHR 0xEE, CHR 0xEF,
      CHR 0xF0, CHR 0xF1, CHR 0xF2, CHR 0xF3, CHR 0xF4, CHR 0xF5, CHR 0xF6, CHR 0xF8,
      CHR 0xF9, CHR 0xFA, CHR 0xFB, CHR 0xFC, CHR 0xFD, CHR 0xFE]"

definition lower_char :: "char \<Rightarrow> char" where
  "lower_char c =
     (case map_of (zip (''ABCDEFGHIJKLMNOPQRSTUVWXYZ'' @ latin1_upper)
                       (''abcdefghijklmnopqrstuvwxyz'' @ latin1_lower)) c of
        Some l \<Rightarrow> l
      | None \<Rightarrow> c)"

definition lower :: "string \<Rightarrow> string" where
  "lower s = map lower_char s"

text \<open>\<open>sub in s\<close> on strings: \<open>sub\<close> occurs in \<open>s\<close> as a contiguous run.\<close>

fun str_contains :: "string \<Rightarrow> string \<Rightarrow> bool" where
  "str_contains sub [] = (sub = [])"
| "str_contains sub (c # cs) = (prefix sub (c # cs) \<or> str_contains sub cs)"

subsection \<open>The search \<open>re.search(r"\\b(\\d+)\\b", content)\<close>\<close>

text \<open>
  \<open>\\b\<close> holds between two neighbouring positions when exactly one of them is a word
  character; the edge of the string counts as a non-word character.
\<close>

definition is_word_at :: "char option \<Rightarrow> bool" where
  "is_word_at x = (case x of None \<Rightarrow> False | Some c \<Rightarrow> is_word c)"

definition word_boundary :: "char option \<Rightarrow> char option \<Rightarrow> bool" where
  "word_boundary l r = (is_word_at l \<noteq> is_word_at r)"

definition nth_opt :: "string \<Rightarrow> nat \<Rightarrow> char option" where
  "nth_opt s i = (if i < length s then Some (s ! i) else None)"

text \<open>
  \<open>\\d+\<close> is greedy: at a start position the matcher takes the longest run of digits
  and gives back one digit at a time, down to one digit, until \<open>\\b\<close> holds after the
  digits taken. \<open>match_digits s k\<close> tries \<open>k\<close> digits, then fewer.
\<close>

fun match_digits :: "string \<Rightarrow> nat \<Rightarrow> string option" where
  "match_digits s 0 = None"
| "match_digits s (Suc k) =
     (if word_boundary (Some (s ! k)) (nth_opt s (Suc k)) then Some (take (Suc k) s)
      else match_digits s k)"

text \<open>An attempt at one start position: \<open>prev\<close> is the character in front of it.\<close>

definition match_here :: "char option \<Rightarrow> string \<Rightarrow> string option" where
  "match_here prev s =
     (if word_boundary prev (nth_opt s 0)
      then match_digits s (length (takeWhile is_digit s))
      else None)"

text \<open>The search tries the start positions from left to right, the end of the string last.\<close>

fun re_search :: "char option \<Rightarrow> string \<Rightarrow> string option" where
  "re_search prev [] = match_here prev []"
| "re_search prev (c # cs) =
     (case match_here prev (c # cs) of
        Some m \<Rightarrow> Some m
      | None \<Rightarrow> re_search (Some c) cs)"

definition find_order_id :: "string \<Rightarrow> string option" where
  "find_order_id text = re_search None text"

subsection \<open>The procedure\<close>

definition assistant :: "string \<Rightarrow> Message" where
  "assistant msg = \<lparr>role = Assistant, content = msg, tool_name = None\<rparr>"

text \<open>
  \<open>_fallback_chat_turn\<close> returns the pair of the reply and the optional tool result, or
  the exception raised, together with the store after the call. \<open>result.order.status\<close>
  raises \<open>AttributeError\<close> when \<open>result.order\<close> is \<open>None\<close>.
\<close>

definition fallback_chat_turn ::
  "store \<Rightarrow> Message list \<Rightarrow> (py_error + Message \<times> tool_result option) \<times> store" where
  "fallback_chat_turn s messages =
     (if messages = [] then (Inr (assistant ''Hello! What can I help you with?'', None), s)
      else
        let last_message = last messages in
        if role last_message \<noteq> User then (Inr (assistant ''Awaiting your instructions.'', None), s)
        else
          let text = lower (content last_message) in
          (case find_order_id text of
             None \<Rightarrow> (Inr (assistant ''Please provide an order ID.'', None), s)
           | Some oid \<Rightarrow>
               if str_contains ''cancel'' text then
                 (case cancel_order_tool s [''order_id'' \<mapsto> JStr oid] of
                    (Inl e, s') \<Rightarrow> (Inl e, s')
                  | (Inr result, s') \<Rightarrow>
                      if ok result then
                        (Inr (assistant (''Order '' @ oid @ '' has been canceled successfully.''),
                              Some (CancelResult result)), s')
                      else if reason result = Some ''not_found'' then
                        (Inr (assistant (''I couldn't find an order with ID '' @ oid @ ''.''),
                              Some (CancelResult result)), s')
                      else
                        (case order result of
                           None \<Rightarrow> (Inl AttributeError, s')
                         | Some ord \<Rightarrow>
                             (Inr (assistant (''Order '' @ oid @ '' cannot be canceled because it is ''
                                               @ status_str (status ord) @ ''.''),
                                   Some (CancelResult result)), s')))
               else
                 (case find_order_tool s [''order_id'' \<mapsto> JStr oid] of
                    Inl e \<Rightarrow> (Inl e, s)
                  | Inr result \<Rightarrow>
                      if found result then
                        (case found_order result of
                           None \<Rightarrow> (Inl AttributeError, s)
                         | Some ord \<Rightarrow>
                             (Inr (assistant (''Order '' @ oid @ '' is currently ''
                                               @ status_str (status ord) @ ''.''),
                                   Some (FindResult result)), s))
                      else
                        (Inr (assistant (''I couldn't find an order with ID '' @ oid @ ''.''),
                              Some (FindResult result)), s))))"

section \<open>Turn orchestrator (llm.py)\<close>

subsection \<open>List objects\<close>

text \<open>
  \<open>chat_turn\<close> receives the history as a reference to a list object and builds list
  objects of its own, one of which it appends to. The list objects live in a heap: a
  list of cells addressed by position. Allocation adds a cell at the end, so the new
  address is one no reference held before.
\<close>

datatype openai_message =
    Plain string string
  | Named string string "string option"

datatype cell = MessageList "Message list" | PayloadList "openai_message list"

type_synonym heap = "cell list"

definition alloc :: "heap \<Rightarrow> cell \<Rightarrow> heap \<times> nat" where
  "alloc h c = (h @ [c], length h)"

definition messages_at :: "heap \<Rightarrow> nat \<Rightarrow> Message list" where
  "messages_at h a =
     (if a < length h then (case h ! a of MessageList ms \<Rightarrow> ms | PayloadList ps \<Rightarrow> []) else [])"

definition payload_at :: "heap \<Rightarrow> nat \<Rightarrow> openai_message list" where
  "payload_at h a =
     (if a < length h then (case h ! a of PayloadList ps \<Rightarrow> ps | MessageList ms \<Rightarrow> []) else [])"

text \<open>\<open>lst.append(x)\<close> on the payload list at address \<open>a\<close>: the cell changes in place.\<close>

definition payload_append :: "heap \<Rightarrow> nat \<Rightarrow> openai_message \<Rightarrow> heap" where
  "payload_append h a x = h[a := PayloadList (payload_at h a @ [x])]"

subsection \<open>The engine and the runtime\<close>

text \<open>
  The reasoning engine is opaque: its two requests are functions of the payload sent,
  and either may raise. A first response either asks for a function call, by name
  and argument text, or carries a content; a follow-up response carries a content. A
  content may be \<open>None\<close>. \<open>json.loads\<close> (\<open>None\<close> for \<open>JSONDecodeError\<close>) and the
  serialisation \<open>result.json()\<close> are taken as given.
\<close>

datatype choice = FunctionCall string string | Content "string option"

record runtime =
  engine_create :: "openai_message list \<Rightarrow> py_error + choice"
  engine_followup :: "openai_message list \<Rightarrow> py_error + string option"
  json_loads :: "string \<Rightarrow> json option"
  result_json :: "tool_result \<Rightarrow> string"

fun role_str :: "Role \<Rightarrow> string" where
  "role_str User = ''user''"
| "role_str Assistant = ''assistant''"
| "role_str Tool = ''tool''"

definition to_openai :: "Message \<Rightarrow> openai_message" where
  "to_openai msg =
     (if role msg = Tool then Named ''tool'' (content msg) (tool_name msg)
      else Plain (role_str (role msg)) (content msg))"

definition system_prompt :: string where
  "system_prompt =
     ''You are an order assistant. Use the available tools to look up or cancel '' @
     ''orders. Never invent order data. If the user requests to cancel an order '' @
     ''that is already shipped or canceled, explain that the order cannot be canceled.''"

text \<open>\<open>Message(role="assistant", content=c)\<close> for a content that may be \<open>None\<close>.\<close>

definition assistant_opt :: "string option \<Rightarrow> py_error + Message" where
  "assistant_opt c = (case c of None \<Rightarrow> Inl ValidationError | Some t \<Rightarrow> Inr (assistant t))"

text \<open>\<open>**args\<close>: the value must be a dictionary, or the call raises \<open>TypeError\<close>.\<close>

definition kwargs :: "json \<Rightarrow> py_error + (string \<rightharpoonup> json)" where
  "kwargs v = (case v of JObj members \<Rightarrow> Inr (map_of members) | _ \<Rightarrow> Inl TypeError)"

text \<open>
  The dispatch on the tool name: the tool returned a result, raised, or the name is
  none of the two.
\<close>

datatype tool_call = Returned tool_result | Raised py_error | Unknown

definition invoke_tool :: "store \<Rightarrow> string \<Rightarrow> json \<Rightarrow> tool_call \<times> store" where
  "invoke_tool s fn_name args_dict =
     (if fn_name = ''find_order'' then
        (case kwargs args_dict of
           Inl e \<Rightarrow> (Raised e, s)
         | Inr args \<Rightarrow>
             (case find_order_tool s args of
                Inl e \<Rightarrow> (Raised e, s)
              | Inr result \<Rightarrow> (Returned (FindResult result), s)))
      else if fn_name = ''cancel_order'' then
        (case kwargs args_dict of
           Inl e \<Rightarrow> (Raised e, s)
         | Inr args \<Rightarrow>
             (case cancel_order_tool s args of
                (Inl e, s') \<Rightarrow> (Raised e, s')
              | (Inr result, s') \<Rightarrow> (Returned (CancelResult result), s')))
      else (Unknown, s))"

subsection \<open>\<open>chat_turn\<close>\<close>

text \<open>
  \<open>api\<close> is \<open>None\<close> when \<open>OPENAI_API_KEY\<close> is not set or the \<open>openai\<close> package is
  missing. \<open>messages\<close> is the address of the history. The result is the returned pair
  or the exception raised, with the store and the heap after the call.
\<close>

definition chat_turn ::
  "runtime option \<Rightarrow> store \<Rightarrow> heap \<Rightarrow> nat
     \<Rightarrow> (py_error + Message \<times> tool_result option) \<times> store \<times> heap" where
  "chat_turn api s h messages =
     (case api of
        None \<Rightarrow>
          (case fallback_chat_turn s (messages_at h messages) of (r, s') \<Rightarrow> (r, s', h))
      | Some rt \<Rightarrow>
          (let (h1, openai_messages) = alloc h (PayloadList []);
               h2 = fold (\<lambda>msg hp. payload_append hp openai_messages (to_openai msg))
                         (messages_at h messages) h1;
               (h3, openai_messages') =
                  alloc h2 (PayloadList (Plain ''system'' system_prompt # payload_at h2 openai_messages))
           in case engine_create rt (payload_at h3 openai_messages') of
                Inl e \<Rightarrow> (Inl e, s, h3)
              | Inr (Content c) \<Rightarrow>
                  (case assistant_opt c of
                     Inl e \<Rightarrow> (Inl e, s, h3)
                   | Inr reply \<Rightarrow> (Inr (reply, None), s, h3))
              | Inr (FunctionCall fn_name fn_args_json) \<Rightarrow>
                  (case json_loads rt fn_args_json of
                     None \<Rightarrow>
                       (Inr (assistant ''Sorry, I couldn't parse the tool arguments.'', None), s, h3)
                   | Some args_dict \<Rightarrow>
                       (case invoke_tool s fn_name args_dict of
                          (Unknown, s') \<Rightarrow>
                            (Inr (assistant (''Unknown tool '' @ fn_name @ ''.''), None), s', h3)
                        | (Raised e, s') \<Rightarrow> (Inl e, s', h3)
                        | (Returned result, s') \<Rightarrow>
                            (let tool_message =
                                   \<lparr>role = Tool, content = result_json rt result,
                                    tool_name = Some fn_name\<rparr>;
                                 (h4, followup_messages) =
                                   alloc h3 (PayloadList (payload_at h3 openai_messages'
                                      @ [Named ''tool'' (content tool_message) (tool_name tool_message)]))
                             in case engine_followup rt (payload_at h4 followup_messages) of
                                  Inl e \<Rightarrow> (Inl e, s', h4)
                                | Inr final_content \<Rightarrow>
                                    (case assistant_opt final_content of
                                       Inl e \<Rightarrow> (Inl e, s', h4)
                                     | Inr reply \<Rightarrow> (Inr (reply, Some result), s', h4)))))))"

section \<open>Specification vocabulary\<close>

subsection \<open>Store invariants\<close>

text \<open>
  \<open>keys_consistent\<close>: every record is stored under its own id (the loader stores
  \<open>Order(order_id=oid, ...)\<close> at \<open>ORDERS[oid]\<close>). \<open>overrides_valid\<close>: every override
  is one of the three status texts, so \<open>get_order\<close> never fails validation.
  \<open>overrides_canceled\<close>: every override is the text \<open>canceled\<close>.
\<close>

definition keys_consistent :: "store \<Rightarrow> bool" where
  "keys_consistent s = (\<forall>k b. ORDERS s k = Some b \<longrightarrow> order_id b = k)"

definition overrides_valid :: "store \<Rightarrow> bool" where
  "overrides_valid s = (\<forall>k v. OVERRIDES s k = Some v \<longrightarrow> parse_status v \<noteq> None)"

definition overrides_canceled :: "store \<Rightarrow> bool" where
  "overrides_canceled s = (\<forall>k v. OVERRIDES s k = Some v \<longrightarrow> v = ''canceled'')"

subsection \<open>Sequences of store operations\<close>

text \<open>
  The two entry points of the order store, called one after the other on the module
  globals: each call sees the store the previous one left.
\<close>

datatype store_op = Get string | Cancel string

datatype op_result =
    Got "py_error + Order option"
  | Cancelled "py_error + CancelOrderResult"

fun exec_op :: "store \<Rightarrow> store_op \<Rightarrow> op_result \<times> store" where
  "exec_op s (Get oid) = (Got (get_order s oid), s)"
| "exec_op s (Cancel oid) = (Cancelled (fst (cancel_order s oid)), snd (cancel_order s oid))"

fun run_ops :: "store \<Rightarrow> store_op list \<Rightarrow> op_result list \<times> store" where
  "run_ops s [] = ([], s)"
| "run_ops s (opn # ops) =
     (fst (exec_op s opn) # fst (run_ops (snd (exec_op s opn)) ops),
      snd (run_ops (snd (exec_op s opn)) ops))"

text \<open>The ids on which a call of \<open>cancel_order\<close> in the run returned \<open>ok = True\<close>.\<close>

definition cancel_succeeds :: "store \<Rightarrow> string \<Rightarrow> bool" where
  "cancel_succeeds s oid = (case fst (cancel_order s oid) of Inl e \<Rightarrow> False | Inr r \<Rightarrow> ok r)"

fun cancelled_ids :: "store \<Rightarrow> store_op list \<Rightarrow> string set" where
  "cancelled_ids s [] = {}"
| "cancelled_ids s (Get oid # ops) = cancelled_ids s ops"
| "cancelled_ids s (Cancel oid # ops) =
     (if cancel_succeeds s oid then {oid} else {}) \<union> cancelled_ids (snd (cancel_order s oid)) ops"

definition is_get :: "store_op \<Rightarrow> bool" where
  "is_get opn = (case opn of Get oid \<Rightarrow> True | Cancel oid \<Rightarrow> False)"

definition get_result :: "store \<Rightarrow> store_op \<Rightarrow> op_result" where
  "get_result s opn = (case opn of Get oid \<Rightarrow> Got (get_order s oid) | Cancel oid \<Rightarrow> Cancelled (fst (cancel_order s oid)))"

subsection \<open>Word-bounded runs of digits\<close>

text \<open>
  The spec's words: a word-bounded run of digits of a text \<open>pre @ tok @ post\<close> is a
  non-empty \<open>tok\<close> of digits with no word character right before it and none right
  after it; the leftmost one is the one with the shortest \<open>pre\<close>.
\<close>

definition digit_token :: "string \<Rightarrow> string \<Rightarrow> string \<Rightarrow> bool" where
  "digit_token pre tok post =
     (tok \<noteq> [] \<and> list_all is_digit tok
      \<and> (pre = [] \<or> \<not> is_word (last pre)) \<and> (post = [] \<or> \<not> is_word (hd post)))"

definition leftmost_digit_token :: "string \<Rightarrow> string \<Rightarrow> bool" where
  "leftmost_digit_token text tok =
     (\<exists>pre post. text = pre @ tok @ post \<and> digit_token pre tok post
        \<and> (\<forall>pre' tok' post'. text = pre' @ tok' @ post' \<and> digit_token pre' tok' post'
              \<longrightarrow> length pre \<le> length pre'))"

definition has_digit_token :: "string \<Rightarrow> bool" where
  "has_digit_token text = (\<exists>pre tok post. text = pre @ tok @ post \<and> digit_token pre tok post)"

definition preceding :: "char option \<Rightarrow> string \<Rightarrow> char option" where
  "preceding prev pre = (if pre = [] then prev else Some (last pre))"

subsection \<open>Tool payloads\<close>

text \<open>
  The spec's words for the payloads the tools accept, a non-empty \<open>order_id\<close> field, and
  what the input models accept, an \<open>order_id\<close> field holding a string.
\<close>

definition has_nonempty_order_id :: "(string \<rightharpoonup> json) \<Rightarrow> bool" where
  "has_nonempty_order_id args = (\<exists>v. args ''order_id'' = Some (JStr v) \<and> v \<noteq> [])"

definition has_order_id_string :: "(string \<rightharpoonup> json) \<Rightarrow> bool" where
  "has_order_id_string args = (\<exists>v. args ''order_id'' = Some (JStr v))"

subsection \<open>Rows of the order file\<close>

text \<open>
  A row is complete when none of its three fields is missing or empty. The record a
  complete row with a valid status stands for, and the first complete row of an id.
\<close>

definition complete_row :: "row \<Rightarrow> bool" where
  "complete_row r = (\<not> falsy (r ''order_id'') \<and> \<not> falsy (r ''status'') \<and> \<not> falsy (r ''item''))"

definition valid_status_row :: "row \<Rightarrow> bool" where
  "valid_status_row r = (parse_status (the (r ''status'')) \<noteq> None)"

definition row_order :: "row \<Rightarrow> Order" where
  "row_order r =
     \<lparr>order_id = the (r ''order_id''), status = the (parse_status (the (r ''status''))),
      item = the (r ''item'')\<rparr>"

definition first_row :: "row list \<Rightarrow> string \<Rightarrow> row option" where
  "first_row rows oid = find (\<lambda>r. complete_row r \<and> r ''order_id'' = Some oid) rows"

definition mk_row :: "string \<Rightarrow> string \<Rightarrow> string \<Rightarrow> row" where
  "mk_row i st it = [''order_id'' \<mapsto> i, ''status'' \<mapsto> st, ''item'' \<mapsto> it]"

subsection \<open>Sample data\<close>

text \<open>
  A sample store with the two orders the repository's tests name: 12345 is shipped,
  23456 is processing.
\<close>

definition sample_store :: store where
  "sample_store =
     \<lparr>ORDERS = [''12345'' \<mapsto> \<lparr>order_id = ''12345'', status = Shipped, item = ''phone''\<rparr>,
                 ''23456'' \<mapsto> \<lparr>order_id = ''23456'', status = Processing, item = ''tablet''\<rparr>],
      OVERRIDES = Map.empty\<rparr>"

text \<open>A store in which order 23456 has been canceled.\<close>

definition sample_store_canceled_23456 :: store where
  "sample_store_canceled_23456 = sample_store\<lparr>OVERRIDES := [''23456'' \<mapsto> ''canceled'']\<rparr>"

text \<open>The message \<open>post_message\<close> of app.py builds from the user's text.\<close>

definition user_msg :: "string \<Rightarrow> Message" where
  "user_msg text = \<lparr>role = User, content = text, tool_name = None\<rparr>"

definition sample_rows :: "row list" where
  "sample_rows =
     [mk_row ''12345'' ''shipped'' ''phone'',
      mk_row ''23456'' '''' ''tablet'',
      [''order_id'' \<mapsto> ''23456'', ''status'' \<mapsto> ''shipped''],
      mk_row ''23456'' ''processing'' ''tablet'',
      mk_row ''12345'' ''canceled'' ''case'']"

text \<open>
  A runtime whose engine asks for \<open>find_order\<close> with the argument text \<open>{}\<close>, and one
  whose engine asks for it with an \<open>order_id\<close>; \<open>json.loads\<close> is given on these texts.
\<close>

definition sample_loads :: "string \<Rightarrow> json option" where
  "sample_loads str =
     (if str = ''{}'' then Some (JObj [])
      else if str = ''{\"order_id\": \"12345\"}'' then Some (JObj [(''order_id'', JStr ''12345'')])
      else None)"

definition sample_runtime :: "string \<Rightarrow> string \<Rightarrow> runtime" where
  "sample_runtime fn_name fn_args_json =
     \<lparr>engine_create = (\<lambda>payload. Inr (FunctionCall fn_name fn_args_json)),
      engine_followup = (\<lambda>payload. Inr (Some ''Order 12345 has shipped.'')),
      json_loads = sample_loads,
      result_json = (\<lambda>result. ''{}'')\<rparr>"

definition sample_heap :: heap where
  "sample_heap = [MessageList [user_msg ''check my order 12345'']]"

section \<open>Lemmas\<close>

subsection \<open>The order store\<close>

lemma parse_status_str [simp]: "parse_status (status_str st) = Some st"
  by (cases st) (simp_all add: parse_status_def)

lemma parse_status_canceled [simp]: "parse_status ''canceled'' = Some Canceled"
  by (simp add: parse_status_def)

lemma parse_status_Some: "parse_status v = Some st \<Longrightarrow> v = status_str st"
  by (auto simp: parse_status_def split: if_splits)

lemma overrides_canceled_valid: "overrides_canceled s \<Longrightarrow> overrides_valid s"
  unfolding overrides_canceled_def overrides_valid_def
  using parse_status_canceled by fastforce

lemma sample_store_keys: "keys_consistent sample_store"
  by (auto simp: keys_consistent_def sample_store_def split: if_splits)

lemma sample_store_valid: "overrides_valid sample_store"
  by (simp add: overrides_valid_def sample_store_def)

lemma sample_store_canceled: "overrides_canceled sample_store"
  by (simp add: overrides_canceled_def sample_store_def)

lemma get_order_no_raise:
  "overrides_valid s \<Longrightarrow> \<exists>r. get_order s oid = Inr r"
  unfolding get_order_def overrides_valid_def
  by (fastforce split: option.splits)

lemma get_order_None_iff: "get_order s oid = Inr None \<longleftrightarrow> ORDERS s oid = None"
  by (simp add: get_order_def split: option.splits)

lemma get_order_Some_base:
  "get_order s oid = Inr (Some e) \<Longrightarrow> \<exists>base. ORDERS s oid = Some base \<and> item e = item base"
  by (auto simp: get_order_def split: option.splits)

lemma get_order_Some_id:
  "keys_consistent s \<Longrightarrow> get_order s oid = Inr (Some e) \<Longrightarrow> order_id e = oid"
  by (auto simp: get_order_def keys_consistent_def split: option.splits)

lemma cancel_order_ORDERS [simp]: "ORDERS (snd (cancel_order s oid)) = ORDERS s"
  by (simp add: cancel_order_def split: sum.splits option.splits)

lemma get_order_canceled_override:
  "OVERRIDES s oid = Some ''canceled'' \<Longrightarrow> ORDERS s oid = Some base
     \<Longrightarrow> get_order s oid = Inr (Some \<lparr>order_id = oid, status = Canceled, item = item base\<rparr>)"
  by (simp add: get_order_def)

lemma cancel_order_keeps_canceled:
  "OVERRIDES s k = Some ''canceled'' \<Longrightarrow> OVERRIDES (snd (cancel_order s oid)) k = Some ''canceled''"
  by (auto simp: cancel_order_def get_order_def split: sum.splits option.splits)

lemma cancel_order_fail_unchanged:
  "cancel_order s oid = (r, s') \<Longrightarrow> (\<forall>x. r = Inr x \<longrightarrow> \<not> ok x) \<Longrightarrow> s' = s"
  by (auto simp: cancel_order_def split: sum.splits option.splits if_splits)

lemma cancel_order_ok_iff:
  "(\<exists>x. fst (cancel_order s oid) = Inr x \<and> ok x) \<longleftrightarrow> get_order s oid \<in> {Inr (Some e) | e. status e = Processing}"
  apply (auto simp: cancel_order_def split: sum.splits option.splits if_splits)
  by (metis Status.exhaust)

subsection \<open>Sequences of store operations\<close>

lemma run_gets_store: "list_all is_get ops \<Longrightarrow> snd (run_ops s ops) = s"
  by (induction ops arbitrary: s) (auto simp: is_get_def split: store_op.splits)

lemma run_gets_results: "list_all is_get ops \<Longrightarrow> fst (run_ops s ops) = map (get_result s) ops"
  by (induction ops arbitrary: s) (auto simp: is_get_def get_result_def split: store_op.splits)

lemma run_ops_ORDERS [simp]: "ORDERS (snd (run_ops s ops)) = ORDERS s"
proof (induction ops arbitrary: s)
  case Nil
  show ?case by simp
next
  case (Cons opn ops)
  show ?case by (cases opn) (simp_all add: Cons.IH)
qed

lemma run_ops_keeps_canceled:
  "OVERRIDES s k = Some ''canceled'' \<Longrightarrow> OVERRIDES (snd (run_ops s ops)) k = Some ''canceled''"
proof (induction ops arbitrary: s)
  case Nil
  then show ?case by simp
next
  case (Cons opn ops)
  show ?case
  proof (cases opn)
    case (Get oid)
    then show ?thesis using Cons by simp
  next
    case (Cancel oid)
    have "OVERRIDES (snd (cancel_order s oid)) k = Some ''canceled''"
      using Cons.prems by (rule cancel_order_keeps_canceled)
    then show ?thesis using Cancel Cons.IH by simp
  qed
qed

lemma cancel_order_overrides_canceled:
  "overrides_canceled s \<Longrightarrow> overrides_canceled (snd (cancel_order s oid))"
  by (auto simp: overrides_canceled_def cancel_order_def split: sum.splits option.splits)

lemma cancel_order_keys_consistent:
  "keys_consistent s \<Longrightarrow> keys_consistent (snd (cancel_order s oid))"
  by (simp add: keys_consistent_def)

lemma cancel_order_dom:
  "dom (OVERRIDES (snd (cancel_order s oid))) =
     dom (OVERRIDES s) \<union> (if cancel_succeeds s oid then {oid} else {})"
  by (auto simp: cancel_order_def cancel_succeeds_def split: sum.splits option.splits)

lemma run_ops_overrides_canceled:
  "overrides_canceled s \<Longrightarrow> overrides_canceled (snd (run_ops s ops))"
proof (induction ops arbitrary: s)
  case Nil
  then show ?case by simp
next
  case (Cons opn ops)
  then show ?case
    by (cases opn) (simp_all add: cancel_order_overrides_canceled)
qed

lemma run_ops_dom:
  "dom (OVERRIDES (snd (run_ops s ops))) = dom (OVERRIDES s) \<union> cancelled_ids s ops"
proof (induction ops arbitrary: s)
  case Nil
  show ?case by simp
next
  case (Cons opn ops)
  show ?case
  proof (cases opn)
    case (Get oid)
    then show ?thesis by (simp add: Cons.IH)
  next
    case (Cancel oid)
    then show ?thesis
      by (simp add: Cons.IH cancel_order_dom Un_assoc)
  qed
qed

lemma cancel_order_ok_sets_override:
  "cancel_order s oid = (Inr r, s1) \<Longrightarrow> ok r \<Longrightarrow>
     OVERRIDES s1 oid = Some ''canceled'' \<and> (\<exists>base. ORDERS s1 oid = Some base)"
  by (auto simp: cancel_order_def get_order_def split: sum.splits option.splits if_splits)

lemma cancel_order_on_canceled:
  "OVERRIDES s oid = Some ''canceled'' \<Longrightarrow> ORDERS s oid = Some base \<Longrightarrow>
     cancel_order s oid =
       (Inr \<lparr>ok = False, reason = Some ''immutable_status'',
             order = Some \<lparr>order_id = oid, status = Canceled, item = item base\<rparr>\<rparr>, s)"
  by (simp add: cancel_order_def get_order_def)

lemma sample_cancel_23456:
  "cancel_order sample_store ''23456'' =
     (Inr \<lparr>ok = True, reason = None,
           order = Some \<lparr>order_id = ''23456'', status = Canceled, item = ''tablet''\<rparr>\<rparr>,
      sample_store_canceled_23456)"
  by (simp add: cancel_order_def get_order_def sample_store_def sample_store_canceled_23456_def)

subsection \<open>What the search finds\<close>

lemma digit_is_word: "is_digit c \<Longrightarrow> is_word c"
  by (auto simp: is_digit_def is_word_def)

lemma match_digits_inside:
  "k < length (takeWhile is_digit s) \<Longrightarrow> match_digits s k = None"
proof (induction k)
  case 0
  show ?case by simp
next
  case (Suc k)
  let ?d = "takeWhile is_digit s"
  have len: "length ?d \<le> length s" by (rule length_takeWhile_le)
  have a: "is_digit (s ! k)"
    using Suc.prems by (metis Suc_lessD nth_mem set_takeWhileD takeWhile_nth)
  have b: "is_digit (s ! Suc k)"
    using Suc.prems by (metis nth_mem set_takeWhileD takeWhile_nth)
  have "\<not> word_boundary (Some (s ! k)) (nth_opt s (Suc k))"
    using a b Suc.prems len by (simp add: word_boundary_def is_word_at_def nth_opt_def digit_is_word)
  then show ?case using Suc by simp
qed

lemma match_digits_longest:
  "match_digits s (length (takeWhile is_digit s)) =
     (if takeWhile is_digit s \<noteq> [] \<and> \<not> is_word_at (nth_opt s (length (takeWhile is_digit s)))
      then Some (takeWhile is_digit s) else None)"
proof (cases "length (takeWhile is_digit s)")
  case 0
  then show ?thesis by simp
next
  case (Suc k)
  let ?d = "takeWhile is_digit s"
  have k: "k < length ?d" using Suc by simp
  have a: "is_digit (s ! k)"
    using k by (metis nth_mem set_takeWhileD takeWhile_nth)
  have t: "take (Suc k) s = ?d"
    by (metis Suc append_eq_conv_conj takeWhile_dropWhile_id)
  have ne: "?d \<noteq> []" using Suc by auto
  show ?thesis
    using Suc a t ne match_digits_inside [OF k]
    by (simp add: word_boundary_def is_word_at_def digit_is_word)
qed

lemma match_here_eq:
  "match_here prev s =
     (if takeWhile is_digit s \<noteq> [] \<and> \<not> is_word_at prev
         \<and> \<not> is_word_at (nth_opt s (length (takeWhile is_digit s)))
      then Some (takeWhile is_digit s) else None)"
proof (cases "takeWhile is_digit s = []")
  case True
  then show ?thesis by (simp add: match_here_def)
next
  case False
  then have "s \<noteq> [] \<and> is_digit (hd s)"
    by (metis takeWhile.simps(1) takeWhile_eq_Nil_iff)
  then have "is_word_at (nth_opt s 0)"
    by (cases s) (auto simp: nth_opt_def is_word_at_def digit_is_word)
  then show ?thesis
    using False by (simp add: match_here_def word_boundary_def match_digits_longest)
qed

lemma takeWhile_digits_token:
  assumes "list_all is_digit tok" and "post = [] \<or> \<not> is_word (hd post)"
  shows "takeWhile is_digit (tok @ post) = tok"
proof -
  have "takeWhile is_digit post = []"
    using assms(2) digit_is_word by (cases post) auto
  then show ?thesis
    using assms(1) by (simp add: list_all_iff)
qed

lemma nth_opt_append_length: "nth_opt (d @ r) (length d) = (case r of [] \<Rightarrow> None | c # cs \<Rightarrow> Some c)"
  by (cases r) (simp_all add: nth_opt_def)

lemma match_here_token:
  "match_here prev s = Some tok \<longleftrightarrow>
     (\<exists>post. s = tok @ post \<and> tok \<noteq> [] \<and> list_all is_digit tok \<and> \<not> is_word_at prev
        \<and> (post = [] \<or> \<not> is_word (hd post)))"
proof
  assume m: "match_here prev s = Some tok"
  let ?d = "takeWhile is_digit s" and ?r = "dropWhile is_digit s"
  from m have h: "?d \<noteq> []" "\<not> is_word_at prev" "\<not> is_word_at (nth_opt s (length ?d))" "tok = ?d"
    by (auto simp: match_here_eq split: if_splits)
  have s: "s = ?d @ ?r" by simp
  have "nth_opt s (length ?d) = (case ?r of [] \<Rightarrow> None | c # cs \<Rightarrow> Some c)"
    using nth_opt_append_length [of ?d ?r] by simp
  then have "?r = [] \<or> \<not> is_word (hd ?r)"
    using h(3) by (cases ?r) (simp_all add: is_word_at_def)
  moreover have "list_all is_digit ?d"
    by (auto simp: list_all_iff dest: set_takeWhileD)
  ultimately show "\<exists>post. s = tok @ post \<and> tok \<noteq> [] \<and> list_all is_digit tok \<and> \<not> is_word_at prev
        \<and> (post = [] \<or> \<not> is_word (hd post))"
    using h s by blast
next
  assume "\<exists>post. s = tok @ post \<and> tok \<noteq> [] \<and> list_all is_digit tok \<and> \<not> is_word_at prev
        \<and> (post = [] \<or> \<not> is_word (hd post))"
  then obtain post where p: "s = tok @ post" "tok \<noteq> []" "list_all is_digit tok" "\<not> is_word_at prev"
      "post = [] \<or> \<not> is_word (hd post)"
    by blast
  have d: "takeWhile is_digit s = tok"
    using p(1,3,5) takeWhile_digits_token by simp
  have "nth_opt s (length tok) = (case post of [] \<Rightarrow> None | c # cs \<Rightarrow> Some c)"
    using p(1) nth_opt_append_length by simp
  then have "\<not> is_word_at (nth_opt s (length tok))"
    using p(5) by (cases post) (auto simp: is_word_at_def)
  then show "match_here prev s = Some tok"
    using d p(2,4) by (simp add: match_here_eq)
qed

lemma preceding_Cons [simp]: "preceding prev (c # a) = preceding (Some c) a"
  by (simp add: preceding_def)

lemma preceding_Nil [simp]: "preceding prev [] = prev"
  by (simp add: preceding_def)

lemma re_search_None:
  "re_search prev s = None \<longleftrightarrow> (\<forall>a b. s = a @ b \<longrightarrow> match_here (preceding prev a) b = None)"
proof (induction s arbitrary: prev)
  case Nil
  show ?case by (simp add: match_here_eq)
next
  case (Cons c cs)
  show ?case
  proof (cases "match_here prev (c # cs)")
    case (Some m)
    then have "\<not> (\<forall>a b. c # cs = a @ b \<longrightarrow> match_here (preceding prev a) b = None)"
      by (metis append_Nil option.distinct(1) preceding_Nil)
    then show ?thesis using Some by simp
  next
    case None
    have "(\<forall>a b. c # cs = a @ b \<longrightarrow> match_here (preceding prev a) b = None)
          \<longleftrightarrow> (\<forall>a b. cs = a @ b \<longrightarrow> match_here (preceding (Some c) a) b = None)"
    proof
      assume l: "\<forall>a b. c # cs = a @ b \<longrightarrow> match_here (preceding prev a) b = None"
      show "\<forall>a b. cs = a @ b \<longrightarrow> match_here (preceding (Some c) a) b = None"
      proof (intro allI impI)
        fix a b assume "cs = a @ b"
        then have "c # cs = (c # a) @ b" by simp
        then have "match_here (preceding prev (c # a)) b = None" using l by blast
        then show "match_here (preceding (Some c) a) b = None" by simp
      qed
    next
      assume r: "\<forall>a b. cs = a @ b \<longrightarrow> match_here (preceding (Some c) a) b = None"
      show "\<forall>a b. c # cs = a @ b \<longrightarrow> match_here (preceding prev a) b = None"
      proof (intro allI impI)
        fix a b assume e: "c # cs = a @ b"
        show "match_here (preceding prev a) b = None"
        proof (cases a)
          case Nil
          then show ?thesis using e None by simp
        next
          case (Cons x a')
          then have "x = c" "cs = a' @ b" using e by simp_all
          then show ?thesis using r Cons by simp
        qed
      qed
    qed
    then show ?thesis using None Cons.IH by simp
  qed
qed

lemma re_search_Some:
  "re_search prev s = Some tok \<longleftrightarrow>
     (\<exists>a b. s = a @ b \<and> match_here (preceding prev a) b = Some tok
        \<and> (\<forall>a' b'. s = a' @ b' \<and> length a' < length a \<longrightarrow> match_here (preceding prev a') b' = None))"
  (is "?L prev s \<longleftrightarrow> ?R prev s")
proof (induction s arbitrary: prev)
  case Nil
  show ?case by (simp add: match_here_eq)
next
  case (Cons c cs)
  show ?case
  proof (cases "match_here prev (c # cs)")
    case (Some m)
    have "?R prev (c # cs) \<longleftrightarrow> m = tok"
    proof
      assume "?R prev (c # cs)"
      then obtain a b where ab: "c # cs = a @ b" "match_here (preceding prev a) b = Some tok"
        "\<forall>a' b'. c # cs = a' @ b' \<and> length a' < length a \<longrightarrow> match_here (preceding prev a') b' = None"
        by blast
      have "a = []"
      proof (rule ccontr)
        assume "a \<noteq> []"
        then have "c # cs = [] @ (c # cs) \<and> length ([]::string) < length a" by simp
        then have "match_here (preceding prev []) (c # cs) = None" using ab(3) by blast
        then show False using Some by simp
      qed
      then show "m = tok" using ab Some by simp
    next
      assume "m = tok"
      then have "c # cs = [] @ (c # cs) \<and> match_here (preceding prev []) (c # cs) = Some tok
        \<and> (\<forall>a' b'. c # cs = a' @ b' \<and> length a' < length ([]::string) \<longrightarrow> match_here (preceding prev a') b' = None)"
        using Some by simp
      then show "?R prev (c # cs)" by blast
    qed
    then show ?thesis using Some by simp
  next
    case None
    have "?R prev (c # cs) \<longleftrightarrow> ?R (Some c) cs"
    proof
      assume "?R prev (c # cs)"
      then obtain a b where ab: "c # cs = a @ b" "match_here (preceding prev a) b = Some tok"
        "\<forall>a' b'. c # cs = a' @ b' \<and> length a' < length a \<longrightarrow> match_here (preceding prev a') b' = None"
        by blast
      have "a \<noteq> []" using ab(1,2) None by auto
      then obtain a0 where a0: "a = c # a0" "cs = a0 @ b"
        using ab(1) by (cases a) auto
      have m: "match_here (preceding (Some c) a0) b = Some tok"
        using ab(2) a0 by simp
      have "\<forall>a' b'. cs = a' @ b' \<and> length a' < length a0 \<longrightarrow> match_here (preceding (Some c) a') b' = None"
      proof (intro allI impI)
        fix a' b' assume "cs = a' @ b' \<and> length a' < length a0"
        then have "c # cs = (c # a') @ b' \<and> length (c # a') < length a" using a0 by simp
        then have "match_here (preceding prev (c # a')) b' = None" using ab(3) by blast
        then show "match_here (preceding (Some c) a') b' = None" by simp
      qed
      then show "?R (Some c) cs" using a0(2) m by blast
    next
      assume "?R (Some c) cs"
      then obtain a b where ab: "cs = a @ b" "match_here (preceding (Some c) a) b = Some tok"
        "\<forall>a' b'. cs = a' @ b' \<and> length a' < length a \<longrightarrow> match_here (preceding (Some c) a') b' = None"
        by blast
      have 1: "c # cs = (c # a) @ b" using ab(1) by simp
      have 2: "match_here (preceding prev (c # a)) b = Some tok" using ab(2) by simp
      have 3: "\<forall>a' b'. c # cs = a' @ b' \<and> length a' < length (c # a) \<longrightarrow> match_here (preceding prev a') b' = None"
      proof (intro allI impI)
        fix a' b' assume h: "c # cs = a' @ b' \<and> length a' < length (c # a)"
        show "match_here (preceding prev a') b' = None"
        proof (cases a')
          case Nil
          then show ?thesis using h None by simp
        next
          case (Cons x a1)
          then have "cs = a1 @ b' \<and> length a1 < length a" "x = c" using h by simp_all
          then show ?thesis using ab(3) Cons by simp
        qed
      qed
      show "?R prev (c # cs)" using 1 2 3 by blast
    qed
    then show ?thesis using None Cons.IH by simp
  qed
qed

lemma match_here_digit_token:
  "match_here (preceding None a) b = Some tok \<longleftrightarrow> (\<exists>post. b = tok @ post \<and> digit_token a tok post)"
proof -
  have "\<not> is_word_at (preceding None a) \<longleftrightarrow> (a = [] \<or> \<not> is_word (last a))"
    by (simp add: preceding_def is_word_at_def)
  then show ?thesis
    unfolding match_here_token digit_token_def by blast
qed

lemma match_here_no_token:
  "match_here (preceding None a) b = None \<longleftrightarrow> (\<forall>tok post. b = tok @ post \<longrightarrow> \<not> digit_token a tok post)"
proof -
  have "match_here (preceding None a) b = None \<longleftrightarrow> (\<forall>tok. match_here (preceding None a) b \<noteq> Some tok)"
    by auto
  then show ?thesis
    unfolding match_here_digit_token by blast
qed

lemma find_order_id_None: "find_order_id text = None \<longleftrightarrow> \<not> has_digit_token text"
  unfolding find_order_id_def re_search_None match_here_no_token has_digit_token_def
  by blast

lemma find_order_id_Some: "find_order_id text = Some tok \<longleftrightarrow> leftmost_digit_token text tok"
proof
  assume "find_order_id text = Some tok"
  then obtain a b where ab: "text = a @ b" "match_here (preceding None a) b = Some tok"
    "\<forall>a' b'. text = a' @ b' \<and> length a' < length a \<longrightarrow> match_here (preceding None a') b' = None"
    unfolding find_order_id_def re_search_Some by blast
  from ab(2) obtain post where p: "b = tok @ post" "digit_token a tok post"
    unfolding match_here_digit_token by blast
  have "\<forall>pre' tok' post'. text = pre' @ tok' @ post' \<and> digit_token pre' tok' post'
              \<longrightarrow> length a \<le> length pre'"
  proof (intro allI impI)
    fix pre' tok' post'
    assume h: "text = pre' @ tok' @ post' \<and> digit_token pre' tok' post'"
    show "length a \<le> length pre'"
    proof (rule ccontr)
      assume "\<not> length a \<le> length pre'"
      then have "text = pre' @ (tok' @ post') \<and> length pre' < length a" using h by simp
      then have "match_here (preceding None pre') (tok' @ post') = None" using ab(3) by blast
      then show False using h unfolding match_here_no_token by blast
    qed
  qed
  then show "leftmost_digit_token text tok"
    unfolding leftmost_digit_token_def using ab(1) p by blast
next
  assume "leftmost_digit_token text tok"
  then obtain pre post where p: "text = pre @ tok @ post" "digit_token pre tok post"
    "\<forall>pre' tok' post'. text = pre' @ tok' @ post' \<and> digit_token pre' tok' post'
              \<longrightarrow> length pre \<le> length pre'"
    unfolding leftmost_digit_token_def by blast
  have 1: "match_here (preceding None pre) (tok @ post) = Some tok"
    unfolding match_here_digit_token using p(2) by blast
  have 2: "\<forall>a' b'. text = a' @ b' \<and> length a' < length pre \<longrightarrow> match_here (preceding None a') b' = None"
  proof (intro allI impI)
    fix a' b' assume h: "text = a' @ b' \<and> length a' < length pre"
    show "match_here (preceding None a') b' = None"
      unfolding match_here_no_token
    proof (intro allI impI)
      fix tok' post' assume "b' = tok' @ post'"
      then have "text = a' @ tok' @ post'" using h by simp
      then show "\<not> digit_token a' tok' post'" using p(3) h by fastforce
    qed
  qed
  show "find_order_id text = Some tok"
    unfolding find_order_id_def re_search_Some using p(1) 1 2 by blast
qed

lemma find_order_id_digits:
  "find_order_id text = Some tok \<Longrightarrow> tok \<noteq> [] \<and> list_all is_digit tok"
  unfolding find_order_id_Some leftmost_digit_token_def digit_token_def by blast

lemma str_contains_sublist: "str_contains sub s \<longleftrightarrow> sublist sub s"
  by (induction s) (auto simp: sublist_Cons_right)

subsection \<open>The paths of the fallback procedure\<close>

lemma order_id_args [simp]:
  "FindOrderInput [''order_id'' \<mapsto> JStr oid] = Some oid"
  "CancelOrderInput [''order_id'' \<mapsto> JStr oid] = Some oid"
  by (simp_all add: FindOrderInput_def CancelOrderInput_def)

lemma cancel_order_result_cases:
  assumes "cancel_order s oid = (Inr r, s')"
  shows "(ok r \<and> reason r = None \<and> (\<exists>ord. order r = Some ord \<and> status ord = Canceled))
       \<or> (\<not> ok r \<and> reason r = Some ''not_found'' \<and> order r = None)
       \<or> (\<not> ok r \<and> reason r = Some ''immutable_status''
            \<and> (\<exists>ord. order r = Some ord \<and> get_order s oid = Inr (Some ord)
                  \<and> status ord \<in> {Shipped, Canceled}))"
  using assms by (auto simp: cancel_order_def split: sum.splits option.splits if_splits)

lemma cancel_order_no_raise:
  "overrides_valid s \<Longrightarrow> \<exists>r s'. cancel_order s oid = (Inr r, s')"
proof -
  assume "overrides_valid s"
  then obtain g where "get_order s oid = Inr g"
    using get_order_no_raise by blast
  then show ?thesis
    by (cases g) (simp_all add: cancel_order_def)
qed

lemma fallback_empty:
  "fallback_chat_turn s [] = (Inr (assistant ''Hello! What can I help you with?'', None), s)"
  by (simp add: fallback_chat_turn_def)

lemma fallback_not_user:
  "messages \<noteq> [] \<Longrightarrow> role (last messages) \<noteq> User \<Longrightarrow>
     fallback_chat_turn s messages = (Inr (assistant ''Awaiting your instructions.'', None), s)"
  by (simp add: fallback_chat_turn_def)

lemma fallback_no_id:
  "messages \<noteq> [] \<Longrightarrow> role (last messages) = User \<Longrightarrow>
   find_order_id (lower (content (last messages))) = None \<Longrightarrow>
     fallback_chat_turn s messages = (Inr (assistant ''Please provide an order ID.'', None), s)"
  by (simp add: fallback_chat_turn_def)

lemma fallback_cancel:
  assumes "messages \<noteq> []" and "role (last messages) = User"
    and "find_order_id (lower (content (last messages))) = Some oid"
    and "str_contains ''cancel'' (lower (content (last messages)))"
    and "cancel_order s oid = (Inr r, s')"
  shows "fallback_chat_turn s messages =
     (Inr (assistant
            (if ok r then ''Order '' @ oid @ '' has been canceled successfully.''
             else if reason r = Some ''not_found'' then ''I couldn't find an order with ID '' @ oid @ ''.''
             else ''Order '' @ oid @ '' cannot be canceled because it is ''
                    @ status_str (status (the (order r))) @ ''.''),
           Some (CancelResult r)), s')"
proof -
  from cancel_order_result_cases [OF assms(5)]
  have "ok r \<or> reason r = Some ''not_found'' \<or> (\<exists>ord. order r = Some ord)"
    by blast
  then show ?thesis
    using assms by (auto simp: fallback_chat_turn_def cancel_order_tool_def)
qed

lemma fallback_cancel_raise:
  assumes "messages \<noteq> []" and "role (last messages) = User"
    and "find_order_id (lower (content (last messages))) = Some oid"
    and "str_contains ''cancel'' (lower (content (last messages)))"
    and "cancel_order s oid = (Inl e, s')"
  shows "fallback_chat_turn s messages = (Inl e, s')"
  using assms by (simp add: fallback_chat_turn_def cancel_order_tool_def)

lemma fallback_lookup:
  assumes "messages \<noteq> []" and "role (last messages) = User"
    and "find_order_id (lower (content (last messages))) = Some oid"
    and "\<not> str_contains ''cancel'' (lower (content (last messages)))"
  shows "fallback_chat_turn s messages =
     (case get_order s oid of
        Inl e \<Rightarrow> (Inl e, s)
      | Inr None \<Rightarrow>
          (Inr (assistant (''I couldn't find an order with ID '' @ oid @ ''.''),
                Some (FindResult \<lparr>found = False, found_order = None\<rparr>)), s)
      | Inr (Some ord) \<Rightarrow>
          (Inr (assistant (''Order '' @ oid @ '' is currently '' @ status_str (status ord) @ ''.''),
                Some (FindResult \<lparr>found = True, found_order = Some ord\<rparr>)), s))"
proof (cases "get_order s oid")
  case (Inl e)
  then show ?thesis
    using assms by (simp add: fallback_chat_turn_def find_order_tool_def)
next
  case (Inr g)
  then show ?thesis
    using assms by (cases g) (simp_all add: fallback_chat_turn_def find_order_tool_def)
qed

lemmas search_eval =
  find_order_id_def match_here_def word_boundary_def is_word_at_def is_word_def is_digit_def
  nth_opt_def lower_def lower_char_def latin1_word_def latin1_upper_def latin1_lower_def

lemma lower_cancel_23456:
  "lower ''Please cancel order 23456'' = ''please cancel order 23456''"
  by (simp add: lower_def lower_char_def latin1_upper_def latin1_lower_def)

lemma lower_check_12345:
  "lower ''check my order 12345'' = ''check my order 12345''"
  by (simp add: lower_def lower_char_def latin1_upper_def latin1_lower_def)

lemma find_cancel_23456: "find_order_id ''please cancel order 23456'' = Some ''23456''"
  by (simp add: search_eval)

lemma find_check_12345: "find_order_id ''check my order 12345'' = Some ''12345''"
  by (simp add: search_eval)

lemma find_hello: "find_order_id (lower ''Hello there'') = None"
  by (simp add: search_eval)

text \<open>
  A Latin-1 letter or ordinal indicator right before the digits is a word character:
  there is no \<open>\\b\<close> between them and the search finds nothing.
\<close>

lemma find_latin1_letter:
  "find_order_id (lower (''order '' @ [CHR 0xC9] @ ''12345'')) = None"
  by (simp add: search_eval)

lemma find_latin1_ordinal:
  "find_order_id (lower (''cancel n'' @ [CHR 0xBA] @ ''23456'')) = None"
  by (simp add: search_eval)

lemma get_order_raises_only_validation:
  "get_order s oid = Inl e \<Longrightarrow> e = ValidationError \<and> \<not> overrides_valid s"
  by (auto simp: get_order_def overrides_valid_def split: option.splits)

lemma cancel_order_raises_only_validation:
  "cancel_order s oid = (Inl e, s') \<Longrightarrow> e = ValidationError \<and> \<not> overrides_valid s"
  by (auto simp: cancel_order_def split: sum.splits option.splits if_splits
           dest: get_order_raises_only_validation)

lemma fallback_result_cases:
  "(\<exists>reply tr s'. fallback_chat_turn s messages = (Inr (reply, tr), s'))
   \<or> (fst (fallback_chat_turn s messages) = Inl ValidationError \<and> \<not> overrides_valid s)"
proof (cases "messages = []")
  case True
  then show ?thesis by (simp add: fallback_empty)
next
  case ne: False
  show ?thesis
  proof (cases "role (last messages) = User")
    case False
    then show ?thesis using ne by (simp add: fallback_not_user)
  next
    case u: True
    show ?thesis
    proof (cases "find_order_id (lower (content (last messages)))")
      case None
      then show ?thesis using ne u by (simp add: fallback_no_id)
    next
      case (Some oid)
      show ?thesis
      proof (cases "str_contains ''cancel'' (lower (content (last messages)))")
        case c: True
        obtain x s' where x: "cancel_order s oid = (x, s')"
          by (cases "cancel_order s oid") blast
        show ?thesis
        proof (cases x)
          case (Inl e)
          then have "fallback_chat_turn s messages = (Inl e, s')"
            using ne u Some c x by (intro fallback_cancel_raise) simp_all
          then show ?thesis
            using cancel_order_raises_only_validation x Inl by fastforce
        next
          case (Inr r)
          then show ?thesis
            using fallback_cancel [OF ne u Some c, of s r s'] x by simp
        qed
      next
        case c: False
        note l = fallback_lookup [OF ne u Some c, of s]
        show ?thesis
        proof (cases "get_order s oid")
          case (Inl e)
          then show ?thesis
            using l get_order_raises_only_validation by fastforce
        next
          case (Inr g)
          then show ?thesis
            using l by (cases g) simp_all
        qed
      qed
    qed
  qed
qed

subsection \<open>Tool inputs\<close>

lemma FindOrderInput_None: "FindOrderInput args = None \<longleftrightarrow> \<not> has_order_id_string args"
  by (auto simp: FindOrderInput_def has_order_id_string_def split: option.splits json.splits)

lemma CancelOrderInput_None: "CancelOrderInput args = None \<longleftrightarrow> \<not> has_order_id_string args"
  by (auto simp: CancelOrderInput_def has_order_id_string_def split: option.splits json.splits)

lemma FindOrderInput_Some: "args ''order_id'' = Some (JStr v) \<Longrightarrow> FindOrderInput args = Some v"
  by (simp add: FindOrderInput_def)

lemma CancelOrderInput_Some: "args ''order_id'' = Some (JStr v) \<Longrightarrow> CancelOrderInput args = Some v"
  by (simp add: CancelOrderInput_def)

subsection \<open>The loader\<close>

lemma complete_order_id: "complete_row r \<Longrightarrow> r ''order_id'' = Some (the (r ''order_id''))"
  by (auto simp: complete_row_def falsy_def split: option.splits)

lemma load_rows_incomplete: "\<not> complete_row r \<Longrightarrow> load_rows m (r # rs) = load_rows m rs"
  by (auto simp: complete_row_def)

lemma load_rows_invalid:
  "complete_row r \<Longrightarrow> parse_status (the (r ''status'')) = None \<Longrightarrow>
     load_rows m (r # rs) = Inl ValidationError"
  by (simp add: complete_row_def)

lemma load_rows_new:
  "complete_row r \<Longrightarrow> parse_status (the (r ''status'')) = Some st \<Longrightarrow>
   m (the (r ''order_id'')) = None \<Longrightarrow>
     load_rows m (r # rs) =
       load_rows (m(the (r ''order_id'') \<mapsto>
                    \<lparr>order_id = the (r ''order_id''), status = st, item = the (r ''item'')\<rparr>)) rs"
  by (simp add: complete_row_def Let_def)

lemma load_rows_seen:
  "complete_row r \<Longrightarrow> parse_status (the (r ''status'')) = Some st \<Longrightarrow>
   m (the (r ''order_id'')) = Some b \<Longrightarrow>
     load_rows m (r # rs) = load_rows m rs"
  by (simp add: complete_row_def Let_def)

lemma load_rows_filter: "load_rows m (filter complete_row rows) = load_rows m rows"
proof (induction rows arbitrary: m)
  case Nil
  show ?case by simp
next
  case (Cons r rs)
  show ?case
  proof (cases "complete_row r")
    case False
    then show ?thesis using Cons.IH load_rows_incomplete by simp
  next
    case True
    then have f: "filter complete_row (r # rs) = r # filter complete_row rs"
      by simp
    show ?thesis
    proof (cases "parse_status (the (r ''status''))")
      case None
      show ?thesis
        unfolding f load_rows_invalid [OF True None] ..
    next
      case (Some st)
      show ?thesis
      proof (cases "m (the (r ''order_id''))")
        case None
        show ?thesis
          unfolding f load_rows_new [of r st m, OF True Some None] by (rule Cons.IH)
      next
        case b: (Some b)
        show ?thesis
          unfolding f load_rows_seen [of r st m b, OF True Some b] by (rule Cons.IH)
      qed
    qed
  qed
qed

lemma load_rows_valid:
  assumes "\<forall>r\<in>set rows. complete_row r \<longrightarrow> valid_status_row r"
  shows "load_rows m rows =
     Inr (\<lambda>oid. case m oid of
                  Some b \<Rightarrow> Some b
                | None \<Rightarrow> map_option row_order (first_row rows oid))"
  using assms
proof (induction rows arbitrary: m)
  case Nil
  have "m = (\<lambda>oid. case m oid of Some b \<Rightarrow> Some b
                       | None \<Rightarrow> map_option row_order (first_row [] oid))"
    by (rule ext) (simp add: first_row_def split: option.splits)
  then show ?case by simp
next
  case (Cons r rs)
  have ih: "\<And>m'. load_rows m' rs =
     Inr (\<lambda>oid. case m' oid of
                  Some b \<Rightarrow> Some b
                | None \<Rightarrow> map_option row_order (first_row rs oid))"
    using Cons by simp
  show ?case
  proof (cases "complete_row r")
    case False
    then have e1: "load_rows m (r # rs) = load_rows m rs"
      by (rule load_rows_incomplete)
    have e2: "first_row (r # rs) = first_row rs"
      using False by (intro ext) (simp add: first_row_def)
    show ?thesis
      unfolding e1 e2 by (rule ih)
  next
    case True
    obtain st where st: "parse_status (the (r ''status'')) = Some st"
      using Cons.prems True by (auto simp: valid_status_row_def)
    let ?oid = "the (r ''order_id'')"
    have ro: "row_order r = \<lparr>order_id = ?oid, status = st, item = the (r ''item'')\<rparr>"
      using st by (simp add: row_order_def)
    have fr: "\<And>oid. first_row (r # rs) oid = (if oid = ?oid then Some r else first_row rs oid)"
      using True complete_order_id [OF True] by (auto simp: first_row_def)
    show ?thesis
    proof (cases "m ?oid")
      case None
      have "load_rows m (r # rs) = load_rows (m(?oid \<mapsto> row_order r)) rs"
        unfolding ro using True st None by (rule load_rows_new)
      also have "\<dots> = Inr (\<lambda>oid. case (m(?oid \<mapsto> row_order r)) oid of
                  Some b \<Rightarrow> Some b
                | None \<Rightarrow> map_option row_order (first_row rs oid))"
        by (rule ih)
      also have "(\<lambda>oid. case (m(?oid \<mapsto> row_order r)) oid of
                  Some b \<Rightarrow> Some b
                | None \<Rightarrow> map_option row_order (first_row rs oid))
           = (\<lambda>oid. case m oid of
                  Some b \<Rightarrow> Some b
                | None \<Rightarrow> map_option row_order (first_row (r # rs) oid))"
      proof (rule ext)
        fix oid
        show "(case (m(?oid \<mapsto> row_order r)) oid of
                  Some b \<Rightarrow> Some b
                | None \<Rightarrow> map_option row_order (first_row rs oid))
           = (case m oid of
                  Some b \<Rightarrow> Some b
                | None \<Rightarrow> map_option row_order (first_row (r # rs) oid))"
          using None by (cases "oid = ?oid") (simp_all add: fr split: option.splits)
      qed
      finally show ?thesis .
    next
      case (Some b)
      have "load_rows m (r # rs) = load_rows m rs"
        using True st Some by (rule load_rows_seen)
      also have "\<dots> = Inr (\<lambda>oid. case m oid of
                  Some b \<Rightarrow> Some b
                | None \<Rightarrow> map_option row_order (first_row rs oid))"
        by (rule ih)
      also have "(\<lambda>oid. case m oid of
                  Some b \<Rightarrow> Some b
                | None \<Rightarrow> map_option row_order (first_row rs oid))
           = (\<lambda>oid. case m oid of
                  Some b \<Rightarrow> Some b
                | None \<Rightarrow> map_option row_order (first_row (r # rs) oid))"
      proof (rule ext)
        fix oid
        show "(case m oid of
                  Some b \<Rightarrow> Some b
                | None \<Rightarrow> map_option row_order (first_row rs oid))
           = (case m oid of
                  Some b \<Rightarrow> Some b
                | None \<Rightarrow> map_option row_order (first_row (r # rs) oid))"
          using Some by (cases "oid = ?oid") (simp_all add: fr split: option.splits)
      qed
      finally show ?thesis .
    qed
  qed
qed

lemma load_rows_keys:
  "load_rows m rows = Inr m' \<Longrightarrow> (\<forall>k b. m k = Some b \<longrightarrow> order_id b = k)
     \<Longrightarrow> (\<forall>k b. m' k = Some b \<longrightarrow> order_id b = k)"
proof (induction rows arbitrary: m)
  case Nil
  then show ?case by simp
next
  case (Cons r rs)
  show ?case
  proof (cases "complete_row r")
    case False
    then have "load_rows m rs = Inr m'"
      using Cons.prems(1) load_rows_incomplete by simp
    then show ?thesis using Cons.prems(2) by (rule Cons.IH)
  next
    case True
    show ?thesis
    proof (cases "parse_status (the (r ''status''))")
      case None
      then show ?thesis
        using Cons.prems(1) load_rows_invalid [OF True None] by simp
    next
      case st: (Some st)
      let ?oid = "the (r ''order_id'')"
      let ?new = "\<lparr>order_id = ?oid, status = st, item = the (r ''item'')\<rparr>"
      show ?thesis
      proof (cases "m ?oid")
        case None
        have "load_rows (m(?oid \<mapsto> ?new)) rs = Inr m'"
          using Cons.prems(1) load_rows_new [of r st m, OF True st None] by simp
        moreover have "\<forall>k b. (m(?oid \<mapsto> ?new)) k = Some b \<longrightarrow> order_id b = k"
          using Cons.prems(2) by auto
        ultimately show ?thesis by (rule Cons.IH)
      next
        case (Some b)
        have "load_rows m rs = Inr m'"
          using Cons.prems(1) load_rows_seen [of r st m b, OF True st Some] by simp
        then show ?thesis using Cons.prems(2) by (rule Cons.IH)
      qed
    qed
  qed
qed

lemma load_orders_keys_consistent:
  assumes "load_orders csvfile = Inr m"
  shows "keys_consistent \<lparr>ORDERS = m, OVERRIDES = Map.empty\<rparr>"
proof -
  obtain rows where "csvfile = Some rows" "load_rows Map.empty rows = Inr m"
    using assms by (auto simp: load_orders_def split: option.splits)
  then have "\<forall>k b. m k = Some b \<longrightarrow> order_id b = k"
    using load_rows_keys [of Map.empty rows m] by simp
  then show ?thesis by (simp add: keys_consistent_def)
qed

lemma sample_rows_complete:
  "complete_row (mk_row ''12345'' ''shipped'' ''phone'')"
  "\<not> complete_row (mk_row ''23456'' '''' ''tablet'')"
  "\<not> complete_row [''order_id'' \<mapsto> ''23456'', ''status'' \<mapsto> ''shipped'']"
  "complete_row (mk_row ''23456'' ''processing'' ''tablet'')"
  "complete_row (mk_row ''12345'' ''canceled'' ''case'')"
  by (simp_all add: mk_row_def complete_row_def falsy_def)

lemma sample_rows_valid:
  "valid_status_row (mk_row ''12345'' ''shipped'' ''phone'')"
  "valid_status_row (mk_row ''23456'' ''processing'' ''tablet'')"
  "valid_status_row (mk_row ''12345'' ''canceled'' ''case'')"
  by (simp_all add: mk_row_def valid_status_row_def parse_status_def)

lemma sample_rows_ids:
  "mk_row i st it ''order_id'' = Some i"
  "[''order_id'' \<mapsto> ''23456'', ''status'' \<mapsto> ''shipped''] ''order_id'' = Some ''23456''"
  by (simp_all add: mk_row_def)

text \<open>
  What the loader does with the other rows: the rows with a missing or empty field
  are skipped, the load being what it is without them; the load raises exactly when a
  complete row has a status that is not a status text; and when none has, the store
  holds for each id the record of the first complete row with that id.
\<close>

lemma load_rows_raises_iff:
  "(\<exists>e. load_rows m rows = Inl e) \<longleftrightarrow> (\<exists>r\<in>set rows. complete_row r \<and> \<not> valid_status_row r)"
proof (induction rows arbitrary: m)
  case Nil
  show ?case by simp
next
  case (Cons r rs)
  show ?case
  proof (cases "complete_row r")
    case False
    then show ?thesis
      using Cons.IH [of m] load_rows_incomplete [of r m rs] by auto
  next
    case True
    show ?thesis
    proof (cases "parse_status (the (r ''status''))")
      case None
      then have "\<not> valid_status_row r"
        by (simp add: valid_status_row_def)
      then show ?thesis
        using True load_rows_invalid [OF True None, of m rs] by auto
    next
      case st: (Some st)
      then have v: "valid_status_row r"
        by (simp add: valid_status_row_def)
      show ?thesis
      proof (cases "m (the (r ''order_id''))")
        case None
        show ?thesis
          using v Cons.IH load_rows_new [of r st m rs, OF True st None] by auto
      next
        case (Some b)
        show ?thesis
          using v Cons.IH [of m] load_rows_seen [of r st m b rs, OF True st Some] by auto
      qed
    qed
  qed
qed

lemma load_orders_skips_incomplete_keeps_first:
  "load_orders (Some rows) = load_orders (Some (filter complete_row rows))
   \<and> ((\<forall>r\<in>set rows. complete_row r \<longrightarrow> valid_status_row r) \<longrightarrow>
        load_orders (Some rows) = Inr (\<lambda>oid. map_option row_order (first_row rows oid)))"
proof (intro conjI impI)
  show "load_orders (Some rows) = load_orders (Some (filter complete_row rows))"
    by (simp add: load_orders_def load_rows_filter)
next
  assume "\<forall>r\<in>set rows. complete_row r \<longrightarrow> valid_status_row r"
  then show "load_orders (Some rows) = Inr (\<lambda>oid. map_option row_order (first_row rows oid))"
    by (simp add: load_orders_def load_rows_valid)
qed

lemma load_orders_sample_rows:
  "(\<exists>m. load_orders (Some sample_rows) = Inr m
      \<and> m ''12345'' = Some \<lparr>order_id = ''12345'', status = Shipped, item = ''phone''\<rparr>
      \<and> m ''23456'' = Some \<lparr>order_id = ''23456'', status = Processing, item = ''tablet''\<rparr>
      \<and> m ''99999'' = None)"
proof -
  have v: "\<forall>r\<in>set sample_rows. complete_row r \<longrightarrow> valid_status_row r"
    by (simp add: sample_rows_def sample_rows_complete sample_rows_valid)
  have f1: "first_row sample_rows ''12345'' = Some (mk_row ''12345'' ''shipped'' ''phone'')"
    by (simp add: sample_rows_def first_row_def sample_rows_complete sample_rows_ids)
  have f2: "first_row sample_rows ''23456'' = Some (mk_row ''23456'' ''processing'' ''tablet'')"
    by (simp add: sample_rows_def first_row_def sample_rows_complete sample_rows_ids)
  have f3: "first_row sample_rows ''99999'' = None"
    by (simp add: sample_rows_def first_row_def sample_rows_complete sample_rows_ids)
  have o1: "row_order (mk_row ''12345'' ''shipped'' ''phone'')
      = \<lparr>order_id = ''12345'', status = Shipped, item = ''phone''\<rparr>"
    by (simp add: row_order_def mk_row_def parse_status_def)
  have o2: "row_order (mk_row ''23456'' ''processing'' ''tablet'')
      = \<lparr>order_id = ''23456'', status = Processing, item = ''tablet''\<rparr>"
    by (simp add: row_order_def mk_row_def parse_status_def)
  from load_orders_skips_incomplete_keeps_first [of sample_rows] v
  have "load_orders (Some sample_rows) = Inr (\<lambda>oid. map_option row_order (first_row sample_rows oid))"
    by blast
  then show ?thesis
    using f1 f2 f3 o1 o2 by simp
qed

subsection \<open>The heap only grows\<close>

lemma alloc_prefix: "prefix h0 h \<Longrightarrow> prefix h0 (fst (alloc h c))"
  by (simp add: alloc_def)

lemma alloc_address: "snd (alloc h c) = length h"
  by (simp add: alloc_def)

lemma alloc_length: "length (fst (alloc h c)) = Suc (length h)"
  by (simp add: alloc_def)

lemma payload_append_length [simp]: "length (payload_append h a x) = length h"
  by (simp add: payload_append_def)

lemma payload_append_prefix:
  assumes "prefix h0 h" and "length h0 \<le> a"
  shows "prefix h0 (payload_append h a x)"
proof -
  obtain t where t: "h = h0 @ t"
    using assms(1) by (auto simp: prefix_def)
  have "(h0 @ t)[a := c] = h0 @ t[a - length h0 := c]" for c
    using assms(2) by (simp add: list_update_append)
  then show ?thesis
    unfolding payload_append_def t by (simp add: prefix_def)
qed

lemma fold_append_prefix:
  "prefix h0 h \<Longrightarrow> length h0 \<le> a \<Longrightarrow>
     prefix h0 (fold (\<lambda>msg hp. payload_append hp a (f msg)) ms h)"
  by (induction ms arbitrary: h) (simp_all add: payload_append_prefix)

lemma fold_append_length [simp]:
  "length (fold (\<lambda>msg hp. payload_append hp a (f msg)) ms h) = length h"
  by (induction ms arbitrary: h) simp_all

lemma prefix_nth: "prefix h0 h \<Longrightarrow> a < length h0 \<Longrightarrow> h ! a = h0 ! a"
  by (auto simp: prefix_def nth_append)

lemma prefix_messages_at: "prefix h0 h \<Longrightarrow> a < length h0 \<Longrightarrow> messages_at h a = messages_at h0 a"
proof -
  assume p: "prefix h0 h" and a: "a < length h0"
  then have "a < length h"
    by (meson less_le_trans prefix_length_le)
  then show ?thesis
    using a prefix_nth [OF p a] by (simp add: messages_at_def)
qed

lemma chat_turn_heap_prefix: "prefix h (snd (snd (chat_turn api s h messages)))"
proof (cases api)
  case None
  then show ?thesis
    by (simp add: chat_turn_def split: prod.splits)
next
  case (Some rt)
  let ?om = "length h"
  let ?h1 = "h @ [PayloadList []]"
  let ?h2 = "fold (\<lambda>msg hp. payload_append hp ?om (to_openai msg)) (messages_at h messages) ?h1"
  let ?h3 = "?h2 @ [PayloadList (Plain ''system'' system_prompt # payload_at ?h2 ?om)]"
  have p1: "prefix h ?h1" by simp
  have p2: "prefix h ?h2"
    using p1 by (rule fold_append_prefix) simp
  have p3: "prefix h ?h3"
    using p2 by (rule prefix_prefix)
  have p4: "prefix h (?h3 @ [c])" for c
    using p3 by (rule prefix_prefix)
  show ?thesis
    using p3 p4 Some
    by (simp add: chat_turn_def alloc_def Let_def
             split: sum.splits choice.splits option.splits prod.splits tool_call.splits)
qed

subsection \<open>The engine path\<close>

lemma chat_turn_tool_raises:
  assumes "engine_create rt = (\<lambda>payload. Inr (FunctionCall fn_name fn_args_json))"
    and "json_loads rt fn_args_json = Some args_dict"
    and "invoke_tool s fn_name args_dict = (Raised e, s')"
  shows "fst (chat_turn (Some rt) s h messages) = Inl e"
  using assms by (simp add: chat_turn_def Let_def split: prod.splits)

lemma chat_turn_bad_json:
  assumes "engine_create rt = (\<lambda>payload. Inr (FunctionCall fn_name fn_args_json))"
    and "json_loads rt fn_args_json = None"
  shows "fst (chat_turn (Some rt) s h messages) =
           Inr (assistant ''Sorry, I couldn't parse the tool arguments.'', None)"
  using assms by (simp add: chat_turn_def Let_def split: prod.splits)

lemma chat_turn_unknown_tool:
  assumes "engine_create rt = (\<lambda>payload. Inr (FunctionCall fn_name fn_args_json))"
    and "json_loads rt fn_args_json = Some args_dict"
    and "fn_name \<noteq> ''find_order''" and "fn_name \<noteq> ''cancel_order''"
  shows "fst (chat_turn (Some rt) s h messages) =
           Inr (assistant (''Unknown tool '' @ fn_name @ ''.''), None)"
  using assms by (simp add: chat_turn_def invoke_tool_def Let_def split: prod.splits)

lemma chat_turn_invalid_input_raises:
  assumes "engine_create rt = (\<lambda>payload. Inr (FunctionCall fn_name fn_args_json))"
    and "json_loads rt fn_args_json = Some (JObj members)"
    and "\<not> has_order_id_string (map_of members)"
    and "fn_name = ''find_order'' \<or> fn_name = ''cancel_order''"
  shows "\<exists>n. fst (chat_turn (Some rt) s h messages) = Inl (ValueError n)"
proof -
  have f: "FindOrderInput (map_of members) = None" and c: "CancelOrderInput (map_of members) = None"
    using assms(3) FindOrderInput_None [of "map_of members"] CancelOrderInput_None [of "map_of members"]
    by simp_all
  have "\<exists>n s'. invoke_tool s fn_name (JObj members) = (Raised (ValueError n), s')"
    using assms(4) f c
    by (auto simp: invoke_tool_def kwargs_def find_order_tool_def cancel_order_tool_def)
  then show ?thesis
    using chat_turn_tool_raises [OF assms(1,2)] by blast
qed

subsection \<open>Every entry point acts on the store as a run of store operations\<close>

lemma run_ops_append:
  "snd (run_ops s (ops @ later)) = snd (run_ops (snd (run_ops s ops)) later)"
  by (induction ops arbitrary: s) simp_all

lemma cancel_order_tool_store:
  "\<exists>ops. snd (cancel_order_tool s args) = snd (run_ops s ops)"
proof (cases "CancelOrderInput args")
  case None
  then have "snd (cancel_order_tool s args) = snd (run_ops s [])"
    by (simp add: cancel_order_tool_def)
  then show ?thesis by blast
next
  case (Some oid)
  then have "snd (cancel_order_tool s args) = snd (run_ops s [Cancel oid])"
    by (simp add: cancel_order_tool_def)
  then show ?thesis by blast
qed

lemma fallback_store:
  "\<exists>ops. snd (fallback_chat_turn s messages) = snd (run_ops s ops)"
proof -
  have n: "s = snd (run_ops s [])" by simp
  have c: "snd (cancel_order s oid) = snd (run_ops s [Cancel oid])" for oid by simp
  have "snd (fallback_chat_turn s messages) = s
      \<or> (\<exists>oid. snd (fallback_chat_turn s messages) = snd (cancel_order s oid))"
    by (auto simp: fallback_chat_turn_def cancel_order_tool_def Let_def
             split: option.splits sum.splits prod.splits if_splits)
       (metis snd_conv)+
  then show ?thesis using n c by metis
qed

lemma invoke_tool_store:
  "\<exists>ops. snd (invoke_tool s fn_name args_dict) = snd (run_ops s ops)"
proof -
  have n: "s = snd (run_ops s [])" by simp
  have "snd (invoke_tool s fn_name args_dict) = s
      \<or> (\<exists>args. snd (invoke_tool s fn_name args_dict) = snd (cancel_order_tool s args))"
    by (auto simp: invoke_tool_def split_beta split: sum.splits)
  then show ?thesis using n cancel_order_tool_store by metis
qed

lemma chat_turn_store:
  "\<exists>ops. fst (snd (chat_turn api s h messages)) = snd (run_ops s ops)"
proof (cases api)
  case None
  then have "fst (snd (chat_turn api s h messages)) = snd (fallback_chat_turn s (messages_at h messages))"
    by (simp add: chat_turn_def split: prod.splits)
  then show ?thesis using fallback_store by metis
next
  case (Some rt)
  have n: "s = snd (run_ops s [])" by simp
  have "fst (snd (chat_turn api s h messages)) = s
      \<or> (\<exists>fn_name args_dict. fst (snd (chat_turn api s h messages)) = snd (invoke_tool s fn_name args_dict))"
    using Some
    by (auto simp: chat_turn_def Let_def split_beta
             split: sum.splits choice.splits option.splits tool_call.splits)
  then show ?thesis using n invoke_tool_store by metis
qed

subsection \<open>The stores a process can be in\<close>

text \<open>
  A process starts from the loaded orders with no override; every store it reaches by
  calls of the entry points has its records keyed by their own id and every override
  \<open>canceled\<close>.
\<close>

lemma reachable_store_invariants:
  assumes "load_orders csvfile = Inr m"
  shows "keys_consistent (snd (run_ops \<lparr>ORDERS = m, OVERRIDES = Map.empty\<rparr> ops))
    \<and> overrides_canceled (snd (run_ops \<lparr>ORDERS = m, OVERRIDES = Map.empty\<rparr> ops))
    \<and> overrides_valid (snd (run_ops \<lparr>ORDERS = m, OVERRIDES = Map.empty\<rparr> ops))"
proof -
  let ?s0 = "\<lparr>ORDERS = m, OVERRIDES = Map.empty\<rparr>"
  have "keys_consistent ?s0"
    using assms by (rule load_orders_keys_consistent)
  then have k: "keys_consistent (snd (run_ops ?s0 ops))"
    by (simp add: keys_consistent_def)
  have "overrides_canceled ?s0"
    by (simp add: overrides_canceled_def)
  then have c: "overrides_canceled (snd (run_ops ?s0 ops))"
    by (rule run_ops_overrides_canceled)
  show ?thesis
    using k c overrides_canceled_valid by blast
qed

section \<open>Claims\<close>

subsection \<open>C1\<close>

text \<open>
  C1. For every order id, on a store whose records are keyed by their own id and whose
  overrides are status texts, \<open>cancel_order\<close> follows the three-step contract:
  \<open>get_order\<close> does not raise; when it gives no order the result is
  \<open>{ok: false, reason: not_found, order: None}\<close> and the store is as before; when the
  effective status is shipped or canceled the result is
  \<open>{ok: false, reason: immutable_status}\<close> with the effective order and the store is as
  before; when the effective status is processing the override \<open>canceled\<close> is recorded
  for the id and the result is \<open>{ok: true, reason: None}\<close> with the base order except
  that its status is canceled.
\<close>

theorem cancel_order_contract:
  assumes "keys_consistent s" and "overrides_valid s"
  shows "(\<exists>r. get_order s oid = Inr r)
    \<and> (get_order s oid = Inr None \<longrightarrow>
          cancel_order s oid = (Inr \<lparr>ok = False, reason = Some ''not_found'', order = None\<rparr>, s))
    \<and> (\<forall>e. get_order s oid = Inr (Some e) \<and> status e \<in> {Shipped, Canceled} \<longrightarrow>
          cancel_order s oid = (Inr \<lparr>ok = False, reason = Some ''immutable_status'', order = Some e\<rparr>, s))
    \<and> (\<forall>e. get_order s oid = Inr (Some e) \<and> status e = Processing \<longrightarrow>
          (\<exists>base. ORDERS s oid = Some base \<and>
             cancel_order s oid =
               (Inr \<lparr>ok = True, reason = None, order = Some (base\<lparr>status := Canceled\<rparr>)\<rparr>,
                s\<lparr>OVERRIDES := (OVERRIDES s)(oid \<mapsto> ''canceled'')\<rparr>)))"
proof (intro conjI allI impI)
  show "\<exists>r. get_order s oid = Inr r"
    using assms(2) by (rule get_order_no_raise)
next
  assume "get_order s oid = Inr None"
  then show "cancel_order s oid = (Inr \<lparr>ok = False, reason = Some ''not_found'', order = None\<rparr>, s)"
    by (simp add: cancel_order_def)
next
  fix e assume "get_order s oid = Inr (Some e) \<and> status e \<in> {Shipped, Canceled}"
  then show "cancel_order s oid = (Inr \<lparr>ok = False, reason = Some ''immutable_status'', order = Some e\<rparr>, s)"
    by (auto simp: cancel_order_def)
next
  fix e assume h: "get_order s oid = Inr (Some e) \<and> status e = Processing"
  then obtain base where b: "ORDERS s oid = Some base" "item e = item base"
    using get_order_Some_base by blast
  have "order_id base = oid"
    using assms(1) b(1) by (simp add: keys_consistent_def)
  then have "base\<lparr>status := Canceled\<rparr> = \<lparr>order_id = oid, status = Canceled, item = item e\<rparr>"
    using b(2) by simp
  then show "\<exists>base. ORDERS s oid = Some base \<and>
             cancel_order s oid =
               (Inr \<lparr>ok = True, reason = None, order = Some (base\<lparr>status := Canceled\<rparr>)\<rparr>,
                s\<lparr>OVERRIDES := (OVERRIDES s)(oid \<mapsto> ''canceled'')\<rparr>)"
    using h b(1) by (simp add: cancel_order_def)
qed

theorem cancel_order_contract_witness:
  "keys_consistent sample_store \<and> overrides_valid sample_store
   \<and> cancel_order sample_store ''99999'' =
        (Inr \<lparr>ok = False, reason = Some ''not_found'', order = None\<rparr>, sample_store)
   \<and> cancel_order sample_store ''12345'' =
        (Inr \<lparr>ok = False, reason = Some ''immutable_status'',
              order = Some \<lparr>order_id = ''12345'', status = Shipped, item = ''phone''\<rparr>\<rparr>, sample_store)
   \<and> fst (cancel_order sample_store ''23456'') =
        Inr \<lparr>ok = True, reason = None,
             order = Some \<lparr>order_id = ''23456'', status = Canceled, item = ''tablet''\<rparr>\<rparr>"
proof -
  have g1: "get_order sample_store ''99999'' = Inr None"
    by (simp add: get_order_def sample_store_def)
  have g2: "get_order sample_store ''12345'' =
            Inr (Some \<lparr>order_id = ''12345'', status = Shipped, item = ''phone''\<rparr>)"
    by (simp add: get_order_def sample_store_def)
  have g3: "get_order sample_store ''23456'' =
            Inr (Some \<lparr>order_id = ''23456'', status = Processing, item = ''tablet''\<rparr>)"
    by (simp add: get_order_def sample_store_def)
  have b3: "ORDERS sample_store ''23456'' = Some \<lparr>order_id = ''23456'', status = Processing, item = ''tablet''\<rparr>"
    by (simp add: sample_store_def)
  note c1 = cancel_order_contract [OF sample_store_keys sample_store_valid, of "''99999''"]
  note c2 = cancel_order_contract [OF sample_store_keys sample_store_valid, of "''12345''"]
  note c3 = cancel_order_contract [OF sample_store_keys sample_store_valid, of "''23456''"]
  from c1 g1 have r1: "cancel_order sample_store ''99999'' =
        (Inr \<lparr>ok = False, reason = Some ''not_found'', order = None\<rparr>, sample_store)"
    by blast
  from c2 g2 have r2: "cancel_order sample_store ''12345'' =
        (Inr \<lparr>ok = False, reason = Some ''immutable_status'',
              order = Some \<lparr>order_id = ''12345'', status = Shipped, item = ''phone''\<rparr>\<rparr>, sample_store)"
    by simp
  from c3 g3 b3 have r3: "fst (cancel_order sample_store ''23456'') =
        Inr \<lparr>ok = True, reason = None,
             order = Some \<lparr>order_id = ''23456'', status = Canceled, item = ''tablet''\<rparr>\<rparr>"
    by auto
  show ?thesis
    using sample_store_keys sample_store_valid r1 r2 r3 by simp
qed

subsection \<open>C2\<close>

text \<open>
  C2. On a store whose overrides are status texts, for every history: an empty history
  gives the greeting and no tool result; a last message whose role is not user gives
  the awaiting-instructions reply and no tool result; otherwise, with the lower-cased
  content of the last message, when it has no word-bounded run of digits the reply is
  the prompt for an id with no tool result; when its leftmost word-bounded run of
  digits is \<open>oid\<close> and it contains \<open>cancel\<close>, the procedure returns the result \<open>r\<close> of
  \<open>cancel_order\<close> on \<open>oid\<close> as tool result, the store \<open>cancel_order\<close> leaves, and the
  reply "Order oid has been canceled successfully." when \<open>r\<close> is ok, "I couldn't find
  an order with ID oid." when the reason is not_found, and otherwise (the reason is
  immutable_status) "Order oid cannot be canceled because it is status."; when it does
  not contain \<open>cancel\<close>, the procedure returns the result of the lookup as tool
  result, found or not, with the reply "Order oid is currently status." or "I couldn't
  find an order with ID oid.". A text that has a word-bounded run of digits has exactly
  one leftmost one.
\<close>

theorem fallback_decision_procedure:
  assumes "overrides_valid s"
  shows "(messages = [] \<longrightarrow>
            fallback_chat_turn s messages =
              (Inr (assistant ''Hello! What can I help you with?'', None), s))
    \<and> (messages \<noteq> [] \<and> role (last messages) \<noteq> User \<longrightarrow>
            fallback_chat_turn s messages =
              (Inr (assistant ''Awaiting your instructions.'', None), s))
    \<and> (messages \<noteq> [] \<and> role (last messages) = User
          \<and> \<not> has_digit_token (lower (content (last messages))) \<longrightarrow>
            fallback_chat_turn s messages =
              (Inr (assistant ''Please provide an order ID.'', None), s))
    \<and> (\<forall>oid. messages \<noteq> [] \<and> role (last messages) = User
          \<and> leftmost_digit_token (lower (content (last messages))) oid
          \<and> sublist ''cancel'' (lower (content (last messages))) \<longrightarrow>
            (\<exists>r s' reply.
               cancel_order s oid = (Inr r, s')
               \<and> fallback_chat_turn s messages = (Inr (assistant reply, Some (CancelResult r)), s')
               \<and> (ok r \<longrightarrow> reply = ''Order '' @ oid @ '' has been canceled successfully.'')
               \<and> (\<not> ok r \<and> reason r = Some ''not_found'' \<longrightarrow>
                     reply = ''I couldn't find an order with ID '' @ oid @ ''.'')
               \<and> (\<not> ok r \<and> reason r \<noteq> Some ''not_found'' \<longrightarrow>
                     reason r = Some ''immutable_status''
                     \<and> (\<exists>ord. order r = Some ord
                           \<and> reply = ''Order '' @ oid @ '' cannot be canceled because it is ''
                                       @ status_str (status ord) @ ''.''))))
    \<and> (\<forall>oid. messages \<noteq> [] \<and> role (last messages) = User
          \<and> leftmost_digit_token (lower (content (last messages))) oid
          \<and> \<not> sublist ''cancel'' (lower (content (last messages))) \<longrightarrow>
            (\<exists>g. get_order s oid = Inr g
               \<and> fallback_chat_turn s messages =
                   (case g of
                      None \<Rightarrow>
                        (Inr (assistant (''I couldn't find an order with ID '' @ oid @ ''.''),
                              Some (FindResult \<lparr>found = False, found_order = None\<rparr>)), s)
                    | Some ord \<Rightarrow>
                        (Inr (assistant (''Order '' @ oid @ '' is currently ''
                                          @ status_str (status ord) @ ''.''),
                              Some (FindResult \<lparr>found = True, found_order = Some ord\<rparr>)), s))))
    \<and> (\<forall>str. has_digit_token str \<longrightarrow>
          (\<exists>oid. leftmost_digit_token str oid
             \<and> (\<forall>oid'. leftmost_digit_token str oid' \<longrightarrow> oid' = oid)))"
proof (intro conjI allI impI)
  assume "messages = []"
  then show "fallback_chat_turn s messages =
              (Inr (assistant ''Hello! What can I help you with?'', None), s)"
    by (simp add: fallback_empty)
next
  assume "messages \<noteq> [] \<and> role (last messages) \<noteq> User"
  then show "fallback_chat_turn s messages =
              (Inr (assistant ''Awaiting your instructions.'', None), s)"
    by (simp add: fallback_not_user)
next
  assume "messages \<noteq> [] \<and> role (last messages) = User
          \<and> \<not> has_digit_token (lower (content (last messages)))"
  then show "fallback_chat_turn s messages =
              (Inr (assistant ''Please provide an order ID.'', None), s)"
    by (simp add: fallback_no_id find_order_id_None)
next
  fix oid
  assume h: "messages \<noteq> [] \<and> role (last messages) = User
          \<and> leftmost_digit_token (lower (content (last messages))) oid
          \<and> sublist ''cancel'' (lower (content (last messages)))"
  then have f: "find_order_id (lower (content (last messages))) = Some oid"
    and c: "str_contains ''cancel'' (lower (content (last messages)))"
    by (simp_all add: find_order_id_Some str_contains_sublist)
  obtain r s' where r: "cancel_order s oid = (Inr r, s')"
    using cancel_order_no_raise [OF assms] by blast
  let ?reply = "if ok r then ''Order '' @ oid @ '' has been canceled successfully.''
             else if reason r = Some ''not_found'' then ''I couldn't find an order with ID '' @ oid @ ''.''
             else ''Order '' @ oid @ '' cannot be canceled because it is ''
                    @ status_str (status (the (order r))) @ ''.''"
  have t: "fallback_chat_turn s messages = (Inr (assistant ?reply, Some (CancelResult r)), s')"
    using h f c r by (intro fallback_cancel) simp_all
  have 1: "ok r \<longrightarrow> ?reply = ''Order '' @ oid @ '' has been canceled successfully.''"
    by simp
  have 2: "\<not> ok r \<and> reason r = Some ''not_found'' \<longrightarrow>
                     ?reply = ''I couldn't find an order with ID '' @ oid @ ''.''"
    by simp
  have 3: "\<not> ok r \<and> reason r \<noteq> Some ''not_found'' \<longrightarrow>
                     reason r = Some ''immutable_status''
                     \<and> (\<exists>ord. order r = Some ord
                           \<and> ?reply = ''Order '' @ oid @ '' cannot be canceled because it is ''
                                       @ status_str (status ord) @ ''.'')"
    using cancel_order_result_cases [OF r] by auto
  show "\<exists>r s' reply.
               cancel_order s oid = (Inr r, s')
               \<and> fallback_chat_turn s messages = (Inr (assistant reply, Some (CancelResult r)), s')
               \<and> (ok r \<longrightarrow> reply = ''Order '' @ oid @ '' has been canceled successfully.'')
               \<and> (\<not> ok r \<and> reason r = Some ''not_found'' \<longrightarrow>
                     reply = ''I couldn't find an order with ID '' @ oid @ ''.'')
               \<and> (\<not> ok r \<and> reason r \<noteq> Some ''not_found'' \<longrightarrow>
                     reason r = Some ''immutable_status''
                     \<and> (\<exists>ord. order r = Some ord
                           \<and> reply = ''Order '' @ oid @ '' cannot be canceled because it is ''
                                       @ status_str (status ord) @ ''.''))"
    using r t 1 2 3 by blast
next
  fix oid
  assume h: "messages \<noteq> [] \<and> role (last messages) = User
          \<and> leftmost_digit_token (lower (content (last messages))) oid
          \<and> \<not> sublist ''cancel'' (lower (content (last messages)))"
  then have f: "find_order_id (lower (content (last messages))) = Some oid"
    and c: "\<not> str_contains ''cancel'' (lower (content (last messages)))"
    by (simp_all add: find_order_id_Some str_contains_sublist)
  obtain g where g: "get_order s oid = Inr g"
    using get_order_no_raise [OF assms] by blast
  have "fallback_chat_turn s messages =
     (case get_order s oid of
        Inl e \<Rightarrow> (Inl e, s)
      | Inr None \<Rightarrow>
          (Inr (assistant (''I couldn't find an order with ID '' @ oid @ ''.''),
                Some (FindResult \<lparr>found = False, found_order = None\<rparr>)), s)
      | Inr (Some ord) \<Rightarrow>
          (Inr (assistant (''Order '' @ oid @ '' is currently '' @ status_str (status ord) @ ''.''),
                Some (FindResult \<lparr>found = True, found_order = Some ord\<rparr>)), s))"
    using h f c by (intro fallback_lookup) simp_all
  then show "\<exists>g. get_order s oid = Inr g
               \<and> fallback_chat_turn s messages =
                   (case g of
                      None \<Rightarrow>
                        (Inr (assistant (''I couldn't find an order with ID '' @ oid @ ''.''),
                              Some (FindResult \<lparr>found = False, found_order = None\<rparr>)), s)
                    | Some ord \<Rightarrow>
                        (Inr (assistant (''Order '' @ oid @ '' is currently ''
                                          @ status_str (status ord) @ ''.''),
                              Some (FindResult \<lparr>found = True, found_order = Some ord\<rparr>)), s))"
    using g by simp
next
  fix str
  assume "has_digit_token str"
  then obtain oid where o: "find_order_id str = Some oid"
    using find_order_id_None [of str] by auto
  then have "\<forall>oid'. leftmost_digit_token str oid' \<longrightarrow> oid' = oid"
    by (simp flip: find_order_id_Some)
  then show "\<exists>oid. leftmost_digit_token str oid
             \<and> (\<forall>oid'. leftmost_digit_token str oid' \<longrightarrow> oid' = oid)"
    using o find_order_id_Some by blast
qed

theorem fallback_decision_procedure_witness:
  "overrides_valid sample_store
   \<and> fallback_chat_turn sample_store [user_msg ''Please cancel order 23456''] =
       (Inr (assistant ''Order 23456 has been canceled successfully.'',
             Some (CancelResult \<lparr>ok = True, reason = None,
                     order = Some \<lparr>order_id = ''23456'', status = Canceled, item = ''tablet''\<rparr>\<rparr>)),
        sample_store_canceled_23456)
   \<and> fallback_chat_turn sample_store [user_msg ''check my order 12345''] =
       (Inr (assistant ''Order 12345 is currently shipped.'',
             Some (FindResult \<lparr>found = True,
                     found_order = Some \<lparr>order_id = ''12345'', status = Shipped, item = ''phone''\<rparr>\<rparr>)),
        sample_store)
   \<and> fallback_chat_turn sample_store [user_msg ''Hello there''] =
       (Inr (assistant ''Please provide an order ID.'', None), sample_store)
   \<and> fallback_chat_turn sample_store [user_msg (''cancel n'' @ [CHR 0xBA] @ ''23456'')] =
       (Inr (assistant ''Please provide an order ID.'', None), sample_store)
   \<and> fallback_chat_turn sample_store [user_msg (''order '' @ [CHR 0xC9] @ ''12345'')] =
       (Inr (assistant ''Please provide an order ID.'', None), sample_store)"
proof -
  let ?m1 = "[user_msg ''Please cancel order 23456'']"
  let ?m2 = "[user_msg ''check my order 12345'']"
  let ?m3 = "[user_msg ''Hello there'']"
  let ?m4 = "[user_msg (''cancel n'' @ [CHR 0xBA] @ ''23456'')]"
  let ?m5 = "[user_msg (''order '' @ [CHR 0xC9] @ ''12345'')]"
  note t1 = fallback_decision_procedure [OF sample_store_valid, of ?m1]
  note t2 = fallback_decision_procedure [OF sample_store_valid, of ?m2]
  note t3 = fallback_decision_procedure [OF sample_store_valid, of ?m3]
  note t4 = fallback_decision_procedure [OF sample_store_valid, of ?m4]
  note t5 = fallback_decision_procedure [OF sample_store_valid, of ?m5]
  have a1: "?m1 \<noteq> [] \<and> role (last ?m1) = User
      \<and> leftmost_digit_token (lower (content (last ?m1))) ''23456''
      \<and> sublist ''cancel'' (lower (content (last ?m1)))"
    by (simp add: user_msg_def lower_cancel_23456 find_cancel_23456
          flip: find_order_id_Some str_contains_sublist)
  from t1 a1 obtain r s' reply where
    r: "cancel_order sample_store ''23456'' = (Inr r, s')"
    and f: "fallback_chat_turn sample_store ?m1 = (Inr (assistant reply, Some (CancelResult r)), s')"
    and k: "ok r \<longrightarrow> reply = ''Order '' @ ''23456'' @ '' has been canceled successfully.''"
    by blast
  have r1: "fallback_chat_turn sample_store ?m1 =
       (Inr (assistant ''Order 23456 has been canceled successfully.'',
             Some (CancelResult \<lparr>ok = True, reason = None,
                     order = Some \<lparr>order_id = ''23456'', status = Canceled, item = ''tablet''\<rparr>\<rparr>)),
        sample_store_canceled_23456)"
    using r f k sample_cancel_23456 by auto
  have a2: "?m2 \<noteq> [] \<and> role (last ?m2) = User
      \<and> leftmost_digit_token (lower (content (last ?m2))) ''12345''
      \<and> \<not> sublist ''cancel'' (lower (content (last ?m2)))"
    by (simp add: user_msg_def lower_check_12345 find_check_12345
          flip: find_order_id_Some str_contains_sublist)
  have g2: "get_order sample_store ''12345''
      = Inr (Some \<lparr>order_id = ''12345'', status = Shipped, item = ''phone''\<rparr>)"
    by (simp add: get_order_def sample_store_def)
  from t2 a2 obtain g where
    "get_order sample_store ''12345'' = Inr g"
    "fallback_chat_turn sample_store ?m2 =
       (case g of
          None \<Rightarrow>
            (Inr (assistant (''I couldn't find an order with ID '' @ ''12345'' @ ''.''),
                  Some (FindResult \<lparr>found = False, found_order = None\<rparr>)), sample_store)
        | Some ord \<Rightarrow>
            (Inr (assistant (''Order '' @ ''12345'' @ '' is currently ''
                              @ status_str (status ord) @ ''.''),
                  Some (FindResult \<lparr>found = True, found_order = Some ord\<rparr>)), sample_store))"
    by blast
  then have r2: "fallback_chat_turn sample_store ?m2 =
       (Inr (assistant ''Order 12345 is currently shipped.'',
             Some (FindResult \<lparr>found = True,
                     found_order = Some \<lparr>order_id = ''12345'', status = Shipped, item = ''phone''\<rparr>\<rparr>)),
        sample_store)"
    using g2 by auto
  have a3: "?m3 \<noteq> [] \<and> role (last ?m3) = User
      \<and> \<not> has_digit_token (lower (content (last ?m3)))"
    by (simp add: user_msg_def find_hello flip: find_order_id_None)
  from t3 a3 have r3: "fallback_chat_turn sample_store ?m3 =
       (Inr (assistant ''Please provide an order ID.'', None), sample_store)"
    by blast
  have a4: "?m4 \<noteq> [] \<and> role (last ?m4) = User
      \<and> \<not> has_digit_token (lower (content (last ?m4)))"
    using find_latin1_ordinal by (simp add: user_msg_def flip: find_order_id_None)
  from t4 a4 have r4: "fallback_chat_turn sample_store ?m4 =
       (Inr (assistant ''Please provide an order ID.'', None), sample_store)"
    by blast
  have a5: "?m5 \<noteq> [] \<and> role (last ?m5) = User
      \<and> \<not> has_digit_token (lower (content (last ?m5)))"
    using find_latin1_letter by (simp add: user_msg_def flip: find_order_id_None)
  from t5 a5 have r5: "fallback_chat_turn sample_store ?m5 =
       (Inr (assistant ''Please provide an order ID.'', None), sample_store)"
    by blast
  show ?thesis
    using sample_store_valid r1 r2 r3 r4 r5 by blast
qed

subsection \<open>C3\<close>

text \<open>
  C3. On a store whose records are keyed by their own id and whose overrides are status
  texts, for every order id: \<open>get_order\<close> gives no order exactly when there is no base
  record; with a base record and an override it gives an order with the override as
  status and the base record's id and item; with a base record and no override it
  gives the base record itself; and a run of calls of \<open>get_order\<close> with no cancellation
  among them leaves the store as it was, each call giving what \<open>get_order\<close> gives on
  the store before the run.
\<close>

theorem get_order_contract:
  assumes "keys_consistent s" and "overrides_valid s"
  shows "(get_order s oid = Inr None \<longleftrightarrow> ORDERS s oid = None)
    \<and> (\<forall>base v. ORDERS s oid = Some base \<and> OVERRIDES s oid = Some v \<longrightarrow>
          (\<exists>e. get_order s oid = Inr (Some e) \<and> status_str (status e) = v
               \<and> order_id e = order_id base \<and> item e = item base))
    \<and> (\<forall>base. ORDERS s oid = Some base \<and> OVERRIDES s oid = None \<longrightarrow>
          get_order s oid = Inr (Some base))
    \<and> (\<forall>ops. list_all is_get ops \<longrightarrow>
          snd (run_ops s ops) = s \<and> fst (run_ops s ops) = map (get_result s) ops
          \<and> get_order (snd (run_ops s ops)) oid = get_order s oid)"
proof (intro conjI allI impI)
  show "get_order s oid = Inr None \<longleftrightarrow> ORDERS s oid = None"
    by (rule get_order_None_iff)
next
  fix base v
  assume h: "ORDERS s oid = Some base \<and> OVERRIDES s oid = Some v"
  then obtain st where st: "parse_status v = Some st"
    using assms(2) by (auto simp: overrides_valid_def)
  have "order_id base = oid"
    using assms(1) h by (simp add: keys_consistent_def)
  then show "\<exists>e. get_order s oid = Inr (Some e) \<and> status_str (status e) = v
               \<and> order_id e = order_id base \<and> item e = item base"
    using h st parse_status_Some [OF st] by (simp add: get_order_def)
next
  fix base
  assume "ORDERS s oid = Some base \<and> OVERRIDES s oid = None"
  then show "get_order s oid = Inr (Some base)"
    by (simp add: get_order_def)
next
  fix ops :: "store_op list"
  assume g: "list_all is_get ops"
  show "snd (run_ops s ops) = s" using g by (rule run_gets_store)
  show "fst (run_ops s ops) = map (get_result s) ops" using g by (rule run_gets_results)
  show "get_order (snd (run_ops s ops)) oid = get_order s oid"
    using run_gets_store [OF g] by simp
qed

theorem get_order_contract_witness:
  "keys_consistent sample_store_canceled_23456 \<and> overrides_valid sample_store_canceled_23456
   \<and> get_order sample_store_canceled_23456 ''23456''
       = Inr (Some \<lparr>order_id = ''23456'', status = Canceled, item = ''tablet''\<rparr>)
   \<and> get_order sample_store_canceled_23456 ''12345''
       = Inr (Some \<lparr>order_id = ''12345'', status = Shipped, item = ''phone''\<rparr>)
   \<and> get_order sample_store_canceled_23456 ''99999'' = Inr None
   \<and> fst (run_ops sample_store_canceled_23456 [Get ''23456'', Get ''23456''])
       = map (get_result sample_store_canceled_23456) [Get ''23456'', Get ''23456'']"
proof -
  let ?s = sample_store_canceled_23456
  have k: "keys_consistent ?s"
    by (auto simp: keys_consistent_def sample_store_canceled_23456_def sample_store_def
             split: if_splits)
  have v: "overrides_valid ?s"
    by (auto simp: overrides_valid_def sample_store_canceled_23456_def sample_store_def
             split: if_splits)
  have b1: "ORDERS ?s ''23456'' = Some \<lparr>order_id = ''23456'', status = Processing, item = ''tablet''\<rparr>
            \<and> OVERRIDES ?s ''23456'' = Some ''canceled''"
    by (simp add: sample_store_canceled_23456_def sample_store_def)
  have b2: "ORDERS ?s ''12345'' = Some \<lparr>order_id = ''12345'', status = Shipped, item = ''phone''\<rparr>
            \<and> OVERRIDES ?s ''12345'' = None"
    by (simp add: sample_store_canceled_23456_def sample_store_def)
  have b3: "ORDERS ?s ''99999'' = None"
    by (simp add: sample_store_canceled_23456_def sample_store_def)
  have g: "list_all is_get [Get ''23456'', Get ''23456'']"
    by (simp add: is_get_def)
  from get_order_contract [OF k v, of "''23456''"] b1
  obtain e where e: "get_order ?s ''23456'' = Inr (Some e)" "status_str (status e) = ''canceled''"
      "order_id e = ''23456''" "item e = ''tablet''"
    by auto
  have "status e = Canceled"
    using e(2) by (cases "status e") simp_all
  then have "e = \<lparr>order_id = ''23456'', status = Canceled, item = ''tablet''\<rparr>"
    using e(3,4) by simp
  then have r1: "get_order ?s ''23456''
       = Inr (Some \<lparr>order_id = ''23456'', status = Canceled, item = ''tablet''\<rparr>)"
    using e(1) by simp
  from get_order_contract [OF k v, of "''12345''"] b2
  have r2: "get_order ?s ''12345''
       = Inr (Some \<lparr>order_id = ''12345'', status = Shipped, item = ''phone''\<rparr>)"
    by blast
  from get_order_contract [OF k v, of "''99999''"] b3
  have r3: "get_order ?s ''99999'' = Inr None"
    by blast
  from get_order_contract [OF k v, of "''23456''"] g
  have r4: "fst (run_ops ?s [Get ''23456'', Get ''23456''])
       = map (get_result ?s) [Get ''23456'', Get ''23456'']"
    by blast
  show ?thesis using k v r1 r2 r3 r4 by blast
qed

subsection \<open>C4\<close>

text \<open>
  C4. From a store with no override (the process start), after any sequence of calls
  of \<open>get_order\<close> and \<open>cancel_order\<close>: the ids that have an override are exactly the ids
  on which a call of \<open>cancel_order\<close> in the sequence returned \<open>ok = True\<close>; every
  override is the text \<open>canceled\<close>; whatever calls follow, each of these overrides
  stays \<open>canceled\<close>; once \<open>cancel_order\<close> has succeeded on an id, after any further
  calls \<open>get_order\<close> on that id gives an order with status canceled and \<open>cancel_order\<close>
  on it returns \<open>ok = False\<close>, \<open>reason = immutable_status\<close> with that order, leaving the
  store as it is; and a turn of \<open>chat_turn\<close>, with or without an engine, leaves a store
  that a longer sequence of these calls gives, so all of this holds after it as well.
\<close>

theorem override_layer_invariant:
  assumes "OVERRIDES s0 = Map.empty"
  shows "dom (OVERRIDES (snd (run_ops s0 ops))) = cancelled_ids s0 ops
    \<and> overrides_canceled (snd (run_ops s0 ops))
    \<and> (\<forall>k later. k \<in> dom (OVERRIDES (snd (run_ops s0 ops))) \<longrightarrow>
          OVERRIDES (snd (run_ops (snd (run_ops s0 ops)) later)) k = Some ''canceled'')
    \<and> (\<forall>k r s1 later. cancel_order (snd (run_ops s0 ops)) k = (Inr r, s1) \<and> ok r \<longrightarrow>
          (\<exists>e. get_order (snd (run_ops s1 later)) k = Inr (Some e) \<and> status e = Canceled
             \<and> cancel_order (snd (run_ops s1 later)) k =
                 (Inr \<lparr>ok = False, reason = Some ''immutable_status'', order = Some e\<rparr>,
                  snd (run_ops s1 later))))
    \<and> (\<forall>api h messages. \<exists>later.
          fst (snd (chat_turn api (snd (run_ops s0 ops)) h messages))
            = snd (run_ops s0 (ops @ later)))"
proof (intro conjI allI impI)
  show "dom (OVERRIDES (snd (run_ops s0 ops))) = cancelled_ids s0 ops"
    using assms by (simp add: run_ops_dom)
next
  have "overrides_canceled s0"
    using assms by (simp add: overrides_canceled_def)
  then show c: "overrides_canceled (snd (run_ops s0 ops))"
    by (rule run_ops_overrides_canceled)
  fix k later
  assume "k \<in> dom (OVERRIDES (snd (run_ops s0 ops)))"
  then have "OVERRIDES (snd (run_ops s0 ops)) k = Some ''canceled''"
    using c by (auto simp: overrides_canceled_def)
  then show "OVERRIDES (snd (run_ops (snd (run_ops s0 ops)) later)) k = Some ''canceled''"
    by (rule run_ops_keeps_canceled)
next
  fix k r s1 later
  assume h: "cancel_order (snd (run_ops s0 ops)) k = (Inr r, s1) \<and> ok r"
  then obtain base where b: "OVERRIDES s1 k = Some ''canceled''" "ORDERS s1 k = Some base"
    using cancel_order_ok_sets_override by blast
  let ?s2 = "snd (run_ops s1 later)"
  let ?e = "\<lparr>order_id = k, status = Canceled, item = item base\<rparr>"
  have o: "OVERRIDES ?s2 k = Some ''canceled''"
    using b(1) by (rule run_ops_keeps_canceled)
  have r: "ORDERS ?s2 k = Some base"
    using b(2) by simp
  have "get_order ?s2 k = Inr (Some ?e)"
    using o r by (rule get_order_canceled_override)
  moreover have "cancel_order ?s2 k =
      (Inr \<lparr>ok = False, reason = Some ''immutable_status'', order = Some ?e\<rparr>, ?s2)"
    using o r by (rule cancel_order_on_canceled)
  ultimately show "\<exists>e. get_order ?s2 k = Inr (Some e) \<and> status e = Canceled
             \<and> cancel_order ?s2 k =
                 (Inr \<lparr>ok = False, reason = Some ''immutable_status'', order = Some e\<rparr>, ?s2)"
    by simp
next
  fix api h messages
  obtain later where "fst (snd (chat_turn api (snd (run_ops s0 ops)) h messages))
      = snd (run_ops (snd (run_ops s0 ops)) later)"
    using chat_turn_store by blast
  then show "\<exists>later. fst (snd (chat_turn api (snd (run_ops s0 ops)) h messages))
            = snd (run_ops s0 (ops @ later))"
    unfolding run_ops_append by blast
qed

theorem override_layer_invariant_witness:
  "OVERRIDES sample_store = Map.empty
   \<and> dom (OVERRIDES (snd (run_ops sample_store [Get ''12345'', Cancel ''12345'', Cancel ''23456''])))
       = {''23456''}
   \<and> (\<exists>e. get_order (snd (run_ops sample_store_canceled_23456 [Get ''23456'', Cancel ''23456''])) ''23456''
            = Inr (Some e) \<and> status e = Canceled
        \<and> cancel_order (snd (run_ops sample_store_canceled_23456 [Get ''23456'', Cancel ''23456''])) ''23456'' =
            (Inr \<lparr>ok = False, reason = Some ''immutable_status'', order = Some e\<rparr>,
             snd (run_ops sample_store_canceled_23456 [Get ''23456'', Cancel ''23456''])))"
proof -
  have e: "OVERRIDES sample_store = Map.empty"
    by (simp add: sample_store_def)
  have ids: "cancelled_ids sample_store [Get ''12345'', Cancel ''12345'', Cancel ''23456''] = {''23456''}"
    by (simp add: cancel_succeeds_def cancel_order_def get_order_def sample_store_def)
  have c: "cancel_order (snd (run_ops sample_store [])) ''23456'' =
     (Inr \<lparr>ok = True, reason = None,
           order = Some \<lparr>order_id = ''23456'', status = Canceled, item = ''tablet''\<rparr>\<rparr>,
      sample_store_canceled_23456)
     \<and> ok \<lparr>ok = True, reason = None,
           order = Some \<lparr>order_id = ''23456'', status = Canceled, item = ''tablet''\<rparr>\<rparr>"
    using sample_cancel_23456 by simp
  note t1 = override_layer_invariant [OF e, of "[Get ''12345'', Cancel ''12345'', Cancel ''23456'']"]
  note t2 = override_layer_invariant [OF e, of "[]"]
  from t1 ids have d: "dom (OVERRIDES (snd (run_ops sample_store [Get ''12345'', Cancel ''12345'', Cancel ''23456''])))
       = {''23456''}"
    by simp
  from t2 c have "\<exists>e. get_order (snd (run_ops sample_store_canceled_23456 [Get ''23456'', Cancel ''23456''])) ''23456''
            = Inr (Some e) \<and> status e = Canceled
        \<and> cancel_order (snd (run_ops sample_store_canceled_23456 [Get ''23456'', Cancel ''23456''])) ''23456'' =
            (Inr \<lparr>ok = False, reason = Some ''immutable_status'', order = Some e\<rparr>,
             snd (run_ops sample_store_canceled_23456 [Get ''23456'', Cancel ''23456'']))"
    by blast
  with e d show ?thesis by blast
qed

subsection \<open>C5\<close>

text \<open>
  C5. The claim: in the engine path, a requested tool call whose argument payload fails
  the tool's input validation gives an assistant apology with no tool result, and
  nothing is raised. The code at such a response: the engine asks for \<open>find_order\<close>,
  or for \<open>cancel_order\<close>, with the argument text \<open>{}\<close>; the text parses, the payload
  has no \<open>order_id\<close>, the tool raises \<open>ValueError\<close>, and \<open>chat_turn\<close> raises it too,
  returning no reply. The two neighbouring failures are recovered: an argument text
  that does not parse and a tool name that is not known each give a reply and no tool
  result.
\<close>

theorem chat_turn_propagates_invalid_tool_input:
  "fst (chat_turn (Some (sample_runtime ''find_order'' ''{}'')) sample_store sample_heap 0)
     = Inl (ValueError ''Invalid input for find_order'')
   \<and> fst (chat_turn (Some (sample_runtime ''cancel_order'' ''{}'')) sample_store sample_heap 0)
     = Inl (ValueError ''Invalid input for cancel_order'')
   \<and> fst (chat_turn (Some (sample_runtime ''find_order'' ''{'')) sample_store sample_heap 0)
     = Inr (assistant ''Sorry, I couldn't parse the tool arguments.'', None)
   \<and> fst (chat_turn (Some (sample_runtime ''ship_order'' ''{}'')) sample_store sample_heap 0)
     = Inr (assistant ''Unknown tool ship_order.'', None)"
proof (intro conjI)
  have e: "engine_create (sample_runtime f a) = (\<lambda>payload. Inr (FunctionCall f a))" for f a
    by (simp add: sample_runtime_def)
  have l: "json_loads (sample_runtime f ''{}'') ''{}'' = Some (JObj [])" for f
    by (simp add: sample_runtime_def sample_loads_def)
  have n: "json_loads (sample_runtime f ''{'') ''{'' = None" for f
    by (simp add: sample_runtime_def sample_loads_def)
  have i1: "invoke_tool sample_store ''find_order'' (JObj [])
      = (Raised (ValueError ''Invalid input for find_order''), sample_store)"
    by (simp add: invoke_tool_def kwargs_def find_order_tool_def FindOrderInput_def)
  have i2: "invoke_tool sample_store ''cancel_order'' (JObj [])
      = (Raised (ValueError ''Invalid input for cancel_order''), sample_store)"
    by (simp add: invoke_tool_def kwargs_def cancel_order_tool_def CancelOrderInput_def)
  show "fst (chat_turn (Some (sample_runtime ''find_order'' ''{}'')) sample_store sample_heap 0)
     = Inl (ValueError ''Invalid input for find_order'')"
    using e l i1 by (rule chat_turn_tool_raises)
  show "fst (chat_turn (Some (sample_runtime ''cancel_order'' ''{}'')) sample_store sample_heap 0)
     = Inl (ValueError ''Invalid input for cancel_order'')"
    using e l i2 by (rule chat_turn_tool_raises)
  show "fst (chat_turn (Some (sample_runtime ''find_order'' ''{'')) sample_store sample_heap 0)
     = Inr (assistant ''Sorry, I couldn't parse the tool arguments.'', None)"
    using e n by (rule chat_turn_bad_json)
  have "fst (chat_turn (Some (sample_runtime ''ship_order'' ''{}'')) sample_store sample_heap 0)
     = Inr (assistant (''Unknown tool '' @ ''ship_order'' @ ''.''), None)"
    using e l by (rule chat_turn_unknown_tool) simp_all
  then show "fst (chat_turn (Some (sample_runtime ''ship_order'' ''{}'')) sample_store sample_heap 0)
     = Inr (assistant ''Unknown tool ship_order.'', None)"
    by simp
qed

subsection \<open>C6\<close>

text \<open>
  C6, as stated, fails: a payload whose \<open>order_id\<close> is the empty string has no
  non-empty \<open>order_id\<close> field, and neither tool rejects it. Both look the empty id up.
\<close>

theorem tools_accept_empty_order_id:
  "\<not> has_nonempty_order_id [''order_id'' \<mapsto> JStr '''']
   \<and> find_order_tool sample_store [''order_id'' \<mapsto> JStr ''''] =
        Inr \<lparr>found = False, found_order = None\<rparr>
   \<and> cancel_order_tool sample_store [''order_id'' \<mapsto> JStr ''''] =
        (Inr \<lparr>ok = False, reason = Some ''not_found'', order = None\<rparr>, sample_store)"
  by (simp add: has_nonempty_order_id_def find_order_tool_def cancel_order_tool_def
        cancel_order_def get_order_def sample_store_def)

text \<open>
  C6, amended. For every payload and every store, each tool raises \<open>ValueError\<close> (the
  spec's \<open>InvalidToolInput\<close>) exactly when the payload has no \<open>order_id\<close> field holding
  a string; the empty string is accepted. When the field holds the string \<open>v\<close>,
  \<open>find_order_tool\<close> gives what \<open>get_order\<close> gives on \<open>v\<close>, wrapped as a
  \<open>FindOrderResult\<close> (found with the order, or not found with none), and
  \<open>cancel_order_tool\<close> is \<open>cancel_order\<close> on \<open>v\<close>, result and store.
\<close>

theorem tool_input_validation:
  "((\<exists>n. find_order_tool s args = Inl (ValueError n)) \<longleftrightarrow> \<not> has_order_id_string args)
   \<and> ((\<exists>n. fst (cancel_order_tool s args) = Inl (ValueError n)) \<longleftrightarrow> \<not> has_order_id_string args)
   \<and> (\<not> has_order_id_string args \<longrightarrow> snd (cancel_order_tool s args) = s)
   \<and> (\<forall>v. args ''order_id'' = Some (JStr v) \<longrightarrow>
         find_order_tool s args =
           (case get_order s v of
              Inl e \<Rightarrow> Inl e
            | Inr None \<Rightarrow> Inr \<lparr>found = False, found_order = None\<rparr>
            | Inr (Some ord) \<Rightarrow> Inr \<lparr>found = True, found_order = Some ord\<rparr>)
         \<and> cancel_order_tool s args = cancel_order s v)"
proof (intro conjI allI impI)
  show "(\<exists>n. find_order_tool s args = Inl (ValueError n)) \<longleftrightarrow> \<not> has_order_id_string args"
  proof (cases "FindOrderInput args")
    case None
    then have "find_order_tool s args = Inl (ValueError ''Invalid input for find_order'')"
      by (simp add: find_order_tool_def)
    moreover have "\<not> has_order_id_string args"
      using None FindOrderInput_None by blast
    ultimately show ?thesis by blast
  next
    case (Some v)
    then have "has_order_id_string args"
      using FindOrderInput_None [of args] by simp
    moreover have "\<not> (\<exists>n. find_order_tool s args = Inl (ValueError n))"
      using Some get_order_raises_only_validation [of s v]
      by (auto simp: find_order_tool_def split: sum.splits option.splits)
    ultimately show ?thesis by simp
  qed
next
  show "(\<exists>n. fst (cancel_order_tool s args) = Inl (ValueError n)) \<longleftrightarrow> \<not> has_order_id_string args"
  proof (cases "CancelOrderInput args")
    case None
    then have "fst (cancel_order_tool s args) = Inl (ValueError ''Invalid input for cancel_order'')"
      by (simp add: cancel_order_tool_def)
    moreover have "\<not> has_order_id_string args"
      using None CancelOrderInput_None by blast
    ultimately show ?thesis by blast
  next
    case (Some v)
    then have "has_order_id_string args"
      using CancelOrderInput_None [of args] by simp
    moreover have "\<not> (\<exists>n. fst (cancel_order s v) = Inl (ValueError n))"
      using cancel_order_raises_only_validation [of s v]
      by (metis prod.collapse py_error.distinct(1))
    ultimately show ?thesis using Some by (simp add: cancel_order_tool_def)
  qed
next
  assume "\<not> has_order_id_string args"
  then have "CancelOrderInput args = None"
    using CancelOrderInput_None [of args] by simp
  then show "snd (cancel_order_tool s args) = s"
    by (simp add: cancel_order_tool_def)
next
  fix v
  assume v: "args ''order_id'' = Some (JStr v)"
  show "find_order_tool s args =
           (case get_order s v of
              Inl e \<Rightarrow> Inl e
            | Inr None \<Rightarrow> Inr \<lparr>found = False, found_order = None\<rparr>
            | Inr (Some ord) \<Rightarrow> Inr \<lparr>found = True, found_order = Some ord\<rparr>)"
    using v by (simp add: find_order_tool_def FindOrderInput_def)
  show "cancel_order_tool s args = cancel_order s v"
    using v by (simp add: cancel_order_tool_def CancelOrderInput_def)
qed

theorem tool_input_validation_witness:
  "\<not> has_order_id_string [''id'' \<mapsto> JStr ''12345'']
   \<and> (\<exists>n. find_order_tool sample_store [''id'' \<mapsto> JStr ''12345''] = Inl (ValueError n))
   \<and> \<not> has_order_id_string [''order_id'' \<mapsto> JInt 12345]
   \<and> snd (cancel_order_tool sample_store [''order_id'' \<mapsto> JInt 12345]) = sample_store
   \<and> find_order_tool sample_store [''order_id'' \<mapsto> JStr ''12345''] =
        Inr \<lparr>found = True,
             found_order = Some \<lparr>order_id = ''12345'', status = Shipped, item = ''phone''\<rparr>\<rparr>
   \<and> cancel_order_tool sample_store [''order_id'' \<mapsto> JStr ''12345''] =
        cancel_order sample_store ''12345''"
proof -
  let ?a1 = "[''id'' \<mapsto> JStr ''12345'']"
  let ?a2 = "[''order_id'' \<mapsto> JInt 12345]"
  let ?a3 = "[''order_id'' \<mapsto> JStr ''12345'']"
  have n1: "\<not> has_order_id_string ?a1" and n2: "\<not> has_order_id_string ?a2"
    by (simp_all add: has_order_id_string_def)
  have v3: "?a3 ''order_id'' = Some (JStr ''12345'')"
    by simp
  have g: "get_order sample_store ''12345''
      = Inr (Some \<lparr>order_id = ''12345'', status = Shipped, item = ''phone''\<rparr>)"
    by (simp add: get_order_def sample_store_def)
  from tool_input_validation [of sample_store ?a1] n1
  have r1: "\<exists>n. find_order_tool sample_store ?a1 = Inl (ValueError n)"
    by blast
  from tool_input_validation [of sample_store ?a2] n2
  have r2: "snd (cancel_order_tool sample_store ?a2) = sample_store"
    by blast
  from tool_input_validation [of sample_store ?a3] v3
  have r3: "find_order_tool sample_store ?a3 =
           (case get_order sample_store ''12345'' of
              Inl e \<Rightarrow> Inl e
            | Inr None \<Rightarrow> Inr \<lparr>found = False, found_order = None\<rparr>
            | Inr (Some ord) \<Rightarrow> Inr \<lparr>found = True, found_order = Some ord\<rparr>)"
    and r4: "cancel_order_tool sample_store ?a3 = cancel_order sample_store ''12345''"
    by blast+
  show ?thesis
    using n1 n2 r1 r2 r3 r4 g by simp
qed

subsection \<open>C7\<close>

text \<open>
  C7. On a store whose overrides are status texts, for every history the fallback
  procedure returns a reply and raises nothing. The id the search extracts is a
  non-empty string of digits, which both tool inputs accept, so the procedure raises
  no \<open>ValueError\<close> on any store; and a result of \<open>cancel_order\<close> with reason
  \<open>immutable_status\<close> carries an order, so the procedure raises no \<open>AttributeError\<close>
  on any store.
\<close>

theorem fallback_never_raises:
  assumes "overrides_valid s"
  shows "(\<exists>reply tr s'. fallback_chat_turn s messages = (Inr (reply, tr), s'))
    \<and> (\<forall>str oid. find_order_id str = Some oid \<longrightarrow>
          oid \<noteq> [] \<and> list_all is_digit oid
          \<and> FindOrderInput [''order_id'' \<mapsto> JStr oid] = Some oid
          \<and> CancelOrderInput [''order_id'' \<mapsto> JStr oid] = Some oid)
    \<and> (\<forall>s0 oid r s1. cancel_order s0 oid = (Inr r, s1) \<and> reason r = Some ''immutable_status''
          \<longrightarrow> order r \<noteq> None)
    \<and> (\<forall>s0 n. fst (fallback_chat_turn s0 messages) \<noteq> Inl (ValueError n)
          \<and> fst (fallback_chat_turn s0 messages) \<noteq> Inl AttributeError)"
proof (intro conjI allI impI)
  show "\<exists>reply tr s'. fallback_chat_turn s messages = (Inr (reply, tr), s')"
    using fallback_result_cases [of s messages] assms by blast
next
  fix str oid
  assume f: "find_order_id str = Some oid"
  show "oid \<noteq> []" "list_all is_digit oid"
    using find_order_id_digits [OF f] by simp_all
  show "FindOrderInput [''order_id'' \<mapsto> JStr oid] = Some oid"
    "CancelOrderInput [''order_id'' \<mapsto> JStr oid] = Some oid"
    by simp_all
next
  fix s0 oid r s1
  assume "cancel_order s0 oid = (Inr r, s1) \<and> reason r = Some ''immutable_status''"
  then show "order r \<noteq> None"
    using cancel_order_result_cases [of s0 oid r s1] by auto
next
  fix s0 n
  show "fst (fallback_chat_turn s0 messages) \<noteq> Inl (ValueError n)"
    using fallback_result_cases [of s0 messages] by auto
  show "fst (fallback_chat_turn s0 messages) \<noteq> Inl AttributeError"
    using fallback_result_cases [of s0 messages] by auto
qed

theorem fallback_never_raises_witness:
  "overrides_valid sample_store_canceled_23456
   \<and> (\<exists>reply tr s'. fallback_chat_turn sample_store_canceled_23456
          [user_msg ''Please cancel order 23456''] = (Inr (reply, tr), s'))
   \<and> find_order_id ''please cancel order 23456'' = Some ''23456''
   \<and> list_all is_digit ''23456''
   \<and> fst (cancel_order sample_store_canceled_23456 ''23456'') =
        Inr \<lparr>ok = False, reason = Some ''immutable_status'',
             order = Some \<lparr>order_id = ''23456'', status = Canceled, item = ''tablet''\<rparr>\<rparr>"
proof -
  let ?s = sample_store_canceled_23456
  have v: "overrides_valid ?s"
    by (auto simp: overrides_valid_def sample_store_canceled_23456_def sample_store_def
             split: if_splits)
  note t = fallback_never_raises [OF v, of "[user_msg ''Please cancel order 23456'']"]
  have c: "fst (cancel_order ?s ''23456'') =
        Inr \<lparr>ok = False, reason = Some ''immutable_status'',
             order = Some \<lparr>order_id = ''23456'', status = Canceled, item = ''tablet''\<rparr>\<rparr>"
    by (simp add: cancel_order_def get_order_def sample_store_canceled_23456_def sample_store_def)
  from t find_cancel_23456 have "list_all is_digit ''23456''"
    by blast
  with t v c find_cancel_23456 show ?thesis by blast
qed

subsection \<open>C8\<close>

text \<open>
  C8. For every runtime, store, heap and address of a history: after \<open>chat_turn\<close> the
  heap is the heap before with new cells after it, so every list object that existed
  before the call is as it was; in particular the history holds the same messages in
  the same order, none changed, removed or added. The reply and the tool result are
  in the returned value only.
\<close>

theorem chat_turn_leaves_history:
  "prefix h (snd (snd (chat_turn api s h messages)))
   \<and> (messages < length h \<longrightarrow>
        snd (snd (chat_turn api s h messages)) ! messages = h ! messages
        \<and> messages_at (snd (snd (chat_turn api s h messages))) messages = messages_at h messages)"
proof (intro conjI impI)
  show p: "prefix h (snd (snd (chat_turn api s h messages)))"
    by (rule chat_turn_heap_prefix)
  assume a: "messages < length h"
  show "snd (snd (chat_turn api s h messages)) ! messages = h ! messages"
    using p a by (rule prefix_nth)
  show "messages_at (snd (snd (chat_turn api s h messages))) messages = messages_at h messages"
    using p a by (rule prefix_messages_at)
qed

theorem chat_turn_leaves_history_witness:
  "0 < length sample_heap
   \<and> messages_at (snd (snd (chat_turn (Some (sample_runtime ''find_order'' ''{}''))
                                sample_store sample_heap 0))) 0
       = [user_msg ''check my order 12345'']
   \<and> messages_at (snd (snd (chat_turn None sample_store sample_heap 0))) 0
       = [user_msg ''check my order 12345'']"
proof -
  have l: "0 < length sample_heap"
    by (simp add: sample_heap_def)
  have m: "messages_at sample_heap 0 = [user_msg ''check my order 12345'']"
    by (simp add: sample_heap_def messages_at_def)
  from chat_turn_leaves_history [of sample_heap "Some (sample_runtime ''find_order'' ''{}'')" sample_store 0]
    chat_turn_leaves_history [of sample_heap None sample_store 0] l m
  show ?thesis by simp
qed

subsection \<open>C9\<close>

text \<open>
  C9. The claim: every malformed or incomplete row, a row whose fields are otherwise
  invalid among them, is skipped without error, and of several rows with one id the
  first is kept. The code at a row with all three fields present whose status is not
  one of the three status texts: constructing its \<open>Order\<close> raises, the row is not
  skipped and the load ends there, also when the row's id has been seen before and the
  row would have been ignored.
\<close>

theorem loader_raises_on_invalid_status:
  "complete_row (mk_row ''34567'' ''delivered'' ''laptop'')
   \<and> load_orders (Some [mk_row ''12345'' ''shipped'' ''phone'',
                        mk_row ''34567'' ''delivered'' ''laptop'']) = Inl ValidationError
   \<and> load_orders (Some [mk_row ''12345'' ''shipped'' ''phone'',
                        mk_row ''12345'' ''delivered'' ''phone'']) = Inl ValidationError"
  by (simp add: load_orders_def mk_row_def complete_row_def falsy_def parse_status_def)

subsection \<open>C10\<close>

text \<open>
  C10. For every order id and every store: when \<open>cancel_order\<close> returns \<open>ok = False\<close>
  the reason is \<open>not_found\<close> or \<open>immutable_status\<close>, the store after the call is the
  store before it, and \<open>get_order\<close> gives on every id what it gave before.
\<close>

theorem cancel_order_failure_atomic:
  assumes "cancel_order s oid = (Inr r, s')" and "\<not> ok r"
  shows "s' = s \<and> ORDERS s' = ORDERS s \<and> OVERRIDES s' = OVERRIDES s
    \<and> (\<forall>k. get_order s' k = get_order s k)
    \<and> (reason r = Some ''not_found'' \<or> reason r = Some ''immutable_status'')"
proof -
  have eq: "s' = s"
    using assms by (auto intro: cancel_order_fail_unchanged)
  have "reason r = Some ''not_found'' \<or> reason r = Some ''immutable_status''"
    using assms by (auto simp: cancel_order_def split: sum.splits option.splits if_splits)
  then show ?thesis using eq by simp
qed

theorem cancel_order_failure_atomic_witness:
  "fst (cancel_order sample_store ''12345'') =
     Inr \<lparr>ok = False, reason = Some ''immutable_status'',
          order = Some \<lparr>order_id = ''12345'', status = Shipped, item = ''phone''\<rparr>\<rparr>
   \<and> snd (cancel_order sample_store ''12345'') = sample_store
   \<and> (\<forall>k. get_order (snd (cancel_order sample_store ''12345'')) k = get_order sample_store k)"
proof -
  let ?r = "\<lparr>ok = False, reason = Some ''immutable_status'',
          order = Some \<lparr>order_id = ''12345'', status = Shipped, item = ''phone''\<rparr>\<rparr>"
  have f: "fst (cancel_order sample_store ''12345'') = Inr ?r"
    by (simp add: cancel_order_def get_order_def sample_store_def)
  then have c: "cancel_order sample_store ''12345'' = (Inr ?r, snd (cancel_order sample_store ''12345''))"
    by (metis prod.collapse)
  have n: "\<not> ok ?r"
    by simp
  from cancel_order_failure_atomic [OF c n] f show ?thesis by simp
qed

end
